theory Spec2Isabelle
  imports Complex_Main
begin

section \<open>Simulation engine (app/simulation.py)\<close>

subsection \<open>Values, errors and the library functions the engine calls\<close>

text \<open>
  Python exceptions are values. Floats are modelled as reals; the one non-finite float
  the source itself creates, \<open>np.inf\<close>, is a constructor of the path-length type.
  \<open>NonFinite\<close> is not a Python exception: it marks the point where numpy would push
  \<open>inf\<close>/\<open>nan\<close> through \<open>np.percentile\<close>, which is outside a model over the reals.
  Lemma \<open>run_simulation_never_NonFinite\<close> shows that no call of \<open>run_simulation\<close>
  reaches it.
\<close>

datatype error =
    ValueError string
  | ZeroDivisionError
  | OSError
  | JSONDecodeError
  | NonFinite

datatype pathv = Fin real | PInf

text \<open>\<open>paths > thickness\<close> on one element; \<open>np.inf\<close> exceeds every finite thickness.\<close>

fun exceeds :: "pathv \<Rightarrow> real \<Rightarrow> bool" where
  "exceeds (Fin x) t = (x > t)"
| "exceeds PInf t = True"

fun finite_paths :: "pathv list \<Rightarrow> real list option" where
  "finite_paths [] = Some []"
| "finite_paths (Fin x # ps) = map_option ((#) x) (finite_paths ps)"
| "finite_paths (PInf # ps) = None"

text \<open>
  The random generator is a parameter: \<open>G seed scale size\<close> is what
  \<open>np.random.default_rng(seed).exponential(scale=scale, size=size)\<close> returns.
  numpy accepts only non-negative integers as seeds, so a seed is a \<open>nat\<close>.
  \<open>default_rng()\<close> without a seed draws fresh entropy from the operating system and
  seeds the generator with it; that entropy is a field of the environment of the call.
\<close>

type_synonym rng = "nat \<Rightarrow> real \<Rightarrow> nat \<Rightarrow> real list"

text \<open>What every exponential sampler guarantees: the requested size, no negative sample.\<close>

definition rng_ok :: "rng \<Rightarrow> bool" where
  "rng_ok G \<longleftrightarrow> (\<forall>seed scale n. length (G seed scale n) = n \<and> (\<forall>x \<in> set (G seed scale n). 0 \<le> x))"

definition py_truediv :: "real \<Rightarrow> real \<Rightarrow> error + real" where
  "py_truediv a b = (if b = 0 then Inl ZeroDivisionError else Inr (a / b))"

text \<open>\<open>np.full(samples, np.inf)\<close>: a negative size is a ValueError.\<close>

definition np_full :: "int \<Rightarrow> pathv \<Rightarrow> error + pathv list" where
  "np_full n v = (if n < 0 then Inl (ValueError ''negative dimensions are not allowed'')
                  else Inr (replicate (nat n) v))"

text \<open>\<open>rng.exponential(scale, size)\<close>: a negative size is a ValueError.\<close>

definition rng_exponential :: "rng \<Rightarrow> nat \<Rightarrow> real \<Rightarrow> int \<Rightarrow> error + pathv list" where
  "rng_exponential G seed scale n =
     (if n < 0 then Inl (ValueError ''negative dimensions are not allowed'')
      else Inr (map Fin (G seed scale (nat n))))"

text \<open>\<open>np.count_nonzero(paths > thickness)\<close>.\<close>

definition count_exceeding :: "pathv list \<Rightarrow> real \<Rightarrow> int" where
  "count_exceeding paths t = int (length (filter (\<lambda>p. exceeds p t) paths))"

text \<open>
  \<open>np.linspace(start, stop, num)\<close> for \<open>num > 1\<close>, endpoint included:
  \<open>arange(num) * ((stop - start) / (num - 1)) + start\<close>.
\<close>

definition np_linspace :: "real \<Rightarrow> real \<Rightarrow> nat \<Rightarrow> real list" where
  "np_linspace start stop num =
     map (\<lambda>i. real i * ((stop - start) / real (num - 1)) + start) [0..<num]"

text \<open>
  \<open>np.percentile(a, q)\<close> with numpy's default linear interpolation, for a non-empty
  array: the virtual index \<open>(n - 1) * q / 100\<close> in the sorted data, interpolated between
  its two neighbours.
\<close>

definition np_percentile :: "real list \<Rightarrow> real \<Rightarrow> real" where
  "np_percentile a q =
     (let s = sort a;
          n = length s;
          h = real (n - 1) * q / 100;
          lo = nat \<lfloor>h\<rfloor>;
          hi = min (lo + 1) (n - 1);
          g = h - real lo
      in s ! lo + (s ! hi - s ! lo) * g)"

text \<open>
  \<open>np.histogram(a, bins=edges)\<close> with an array of edges: numpy refuses edges that
  decrease somewhere, and otherwise takes the differences of the cumulative counts
  \<open>#{x < e}\<close> for every edge but the last and \<open>#{x \<le> e}\<close> for the last one (the last
  bin is closed). It returns the counts and the edges.
\<close>

fun monotone_edges :: "real list \<Rightarrow> bool" where
  "monotone_edges (a # b # es) = (a \<le> b \<and> monotone_edges (b # es))"
| "monotone_edges es = True"

fun cum_counts :: "real list \<Rightarrow> real list \<Rightarrow> int list" where
  "cum_counts xs [] = []"
| "cum_counts xs [e] = [int (length (filter (\<lambda>x. x \<le> e) xs))]"
| "cum_counts xs (e # es) = int (length (filter (\<lambda>x. x < e) xs)) # cum_counts xs es"

fun np_diff :: "int list \<Rightarrow> int list" where
  "np_diff (a # b # cs) = (b - a) # np_diff (b # cs)"
| "np_diff cs = []"

definition np_histogram :: "real list \<Rightarrow> real list \<Rightarrow> error + (int list \<times> real list)" where
  "np_histogram xs edges =
     (if \<not> monotone_edges edges
      then Inl (ValueError ''bins must increase monotonically, when an array'')
      else Inr (np_diff (cum_counts xs edges), edges))"

text \<open>Bin \<open>i\<close> of the edges: from edge \<open>i\<close>, included, to edge \<open>i + 1\<close>, which only the
  last bin includes.\<close>

definition in_bin :: "real list \<Rightarrow> nat \<Rightarrow> real \<Rightarrow> bool" where
  "in_bin edges i x \<longleftrightarrow>
     edges ! i \<le> x
     \<and> (if Suc (Suc i) = length edges then x \<le> edges ! Suc i else x < edges ! Suc i)"

subsection \<open>The engine\<close>

definition MATERIAL_MU :: "string \<rightharpoonup> real" where
  "MATERIAL_MU = [''Aluminum'' \<mapsto> 0.15, ''Lead'' \<mapsto> 1.2, ''Water'' \<mapsto> 0.08]"

text \<open>
  What one call reads from outside the program: the entropy the operating system hands
  to an unseeded generator or \<open>SeedSequence()\<close>, the number of processors, whether the
  process pool can be started, the clock at entry and at exit, and whether matplotlib
  produced the figure.
\<close>

record env =
  os_entropy :: nat
  cpu_count :: int
  pool_ok :: bool
  t_start :: real
  t_end :: real
  plot_ok :: bool

text \<open>The \<open>params\<close> dict: a missing key is \<open>None\<close> and takes the default of \<open>params.get\<close>.\<close>

record params =
  p_material :: "string option"
  p_thickness :: "real option"
  p_samples :: "int option"
  p_seed :: "nat option"

text \<open>The result dict; field \<open>r_k\<close> is the key \<open>k\<close>.\<close>

record sim_result =
  r_material :: string
  r_thickness :: real
  r_samples :: int
  r_transmitted :: int
  r_transmitted_fraction :: real
  r_bins :: "real list"
  r_counts :: "int list"
  r_runtime_seconds :: real
  r_parallel_used :: bool
  r_workers :: int

datatype figure = Figure

definition single_chunk_sim ::
  "rng \<Rightarrow> nat \<Rightarrow> int \<Rightarrow> real \<Rightarrow> real \<Rightarrow> nat option \<Rightarrow> error + (int \<times> pathv list)" where
  "single_chunk_sim G entropy samples mu thickness rng_seed =
     (let rng = (case rng_seed of Some s \<Rightarrow> s | None \<Rightarrow> entropy) in
      case (if mu \<le> 0 then np_full samples PInf
            else (case py_truediv 1 mu of
                    Inl e \<Rightarrow> Inl e
                  | Inr scale \<Rightarrow> rng_exponential G rng scale samples)) of
        Inl e \<Rightarrow> Inl e
      | Inr paths \<Rightarrow> Inr (count_exceeding paths thickness, paths))"

text \<open>\<open>seed or np.random.SeedSequence().entropy\<close>: Python's \<open>or\<close> takes the right operand
  when the left one is falsy, that is \<open>None\<close> or \<open>0\<close>.\<close>

definition offset_seed :: "nat option \<Rightarrow> nat \<Rightarrow> nat" where
  "offset_seed seed entropy =
     (case seed of None \<Rightarrow> entropy | Some s \<Rightarrow> if s = 0 then entropy else s)"

text \<open>The loop \<open>for i in range(n_workers)\<close> that builds \<open>chunks\<close>, from index \<open>i\<close> on.\<close>

function chunks_from ::
  "int \<Rightarrow> int \<Rightarrow> int \<Rightarrow> int \<Rightarrow> real \<Rightarrow> real \<Rightarrow> nat \<Rightarrow> (int \<times> real \<times> real \<times> nat) list" where
  "chunks_from i n_workers base rem mu thickness off =
     (if i < n_workers
      then (let cnt = base + (if i < rem then 1 else 0);
                rest = chunks_from (i + 1) n_workers base rem mu thickness off
            in if cnt > 0 then (cnt, mu, thickness, off + nat i) # rest else rest)
      else [])"
  by pat_completeness auto
termination
  by (relation "measure (\<lambda>(i, n, _). nat (n - i))") auto

declare chunks_from.simps [simp del]

text \<open>\<open>p.starmap(single_chunk_sim, chunks)\<close>: the first exception of a chunk is raised
  in the caller. Every chunk carries its own seed, so none draws entropy.\<close>

fun starmap :: "rng \<Rightarrow> (int \<times> real \<times> real \<times> nat) list \<Rightarrow> error + (int \<times> pathv list) list" where
  "starmap G [] = Inr []"
| "starmap G ((cnt, mu, thickness, s) # cs) =
     (case single_chunk_sim G 0 cnt mu thickness (Some s) of
        Inl e \<Rightarrow> Inl e
      | Inr r \<Rightarrow> (case starmap G cs of Inl e \<Rightarrow> Inl e | Inr rs \<Rightarrow> Inr (r # rs)))"

text \<open>The parallel branch, up to \<open>transmitted_total\<close>, \<open>all_paths\<close> and the final \<open>n_workers\<close>.
  \<open>samples // n_workers\<close> raises when \<open>n_workers\<close> is 0; Python's \<open>//\<close> and \<open>%\<close> on integers
  round to minus infinity, as \<open>div\<close> and \<open>mod\<close> do. \<open>Pool(processes=0)\<close> is a ValueError, and the
  pool may fail to start for reasons of the operating system.\<close>

definition parallel_branch ::
  "rng \<Rightarrow> env \<Rightarrow> int \<Rightarrow> real \<Rightarrow> real \<Rightarrow> nat option \<Rightarrow> int option
     \<Rightarrow> error + (int \<times> pathv list \<times> int)" where
  "parallel_branch G e samples mu thickness seed n_workers =
     (let cpu_avail = cpu_count e;
          nw = (case n_workers of None \<Rightarrow> min 4 (max 1 cpu_avail) | Some n \<Rightarrow> n)
      in if nw = 0 then Inl ZeroDivisionError
         else
           (let base = samples div nw;
                rem = samples mod nw;
                chunks = chunks_from 0 nw base rem mu thickness
                           (offset_seed seed (os_entropy e))
            in if length chunks < 1
               then Inl (ValueError ''Number of processes must be at least 1'')
               else if \<not> pool_ok e then Inl OSError
               else (case starmap G chunks of
                       Inl err \<Rightarrow> Inl err
                     | Inr results \<Rightarrow>
                         Inr (sum_list (map fst results), concat (map snd results), nw))))"

text \<open>Lines 53 to 80: the samples of the call, drawn in parallel or in one pass. The third
  component is the worker count the result reports.\<close>

definition sample_paths ::
  "rng \<Rightarrow> env \<Rightarrow> int \<Rightarrow> real \<Rightarrow> real \<Rightarrow> nat option \<Rightarrow> bool \<Rightarrow> int option
     \<Rightarrow> error + (int \<times> pathv list \<times> int)" where
  "sample_paths G e samples mu thickness seed parallel n_workers =
     (if parallel then parallel_branch G e samples mu thickness seed n_workers
      else (case single_chunk_sim G (os_entropy e) samples mu thickness seed of
              Inl err \<Rightarrow> Inl err
            | Inr (tr, paths) \<Rightarrow> Inr (tr, paths, 1)))"

text \<open>The upper end of the histogram:
  \<open>max(thickness * 2, np.percentile(all_paths, 95) if all_paths.size else thickness)\<close>.\<close>

definition hist_stop :: "real \<Rightarrow> real list \<Rightarrow> real" where
  "hist_stop thickness xs =
     max (thickness * 2) (if xs \<noteq> [] then np_percentile xs 95 else thickness)"

definition run_simulation ::
  "rng \<Rightarrow> env \<Rightarrow> params \<Rightarrow> bool \<Rightarrow> int option \<Rightarrow> error + (sim_result \<times> figure option)" where
  "run_simulation G e ps parallel n_workers =
     (let material = (case p_material ps of None \<Rightarrow> ''Aluminum'' | Some m \<Rightarrow> m);
          thickness = (case p_thickness ps of None \<Rightarrow> 1.0 | Some t \<Rightarrow> t);
          samples = (case p_samples ps of None \<Rightarrow> 500 | Some n \<Rightarrow> n);
          seed = p_seed ps
      in case MATERIAL_MU material of
           None \<Rightarrow> Inl (ValueError ''Unknown material'')
         | Some mu \<Rightarrow>
        (case sample_paths G e samples mu thickness seed parallel n_workers of
           Inl err \<Rightarrow> Inl err
         | Inr (transmitted_total, all_paths, nw) \<Rightarrow>
        (case py_truediv (real_of_int transmitted_total) (real_of_int samples) of
           Inl err \<Rightarrow> Inl err
         | Inr fraction \<Rightarrow>
        (case finite_paths all_paths of
           None \<Rightarrow> Inl NonFinite
         | Some xs \<Rightarrow>
        (case np_histogram xs (np_linspace 0 (hist_stop thickness xs) 20) of
           Inl err \<Rightarrow> Inl err
         | Inr (cnts, edges) \<Rightarrow>
             Inr (\<lparr> r_material = material, r_thickness = thickness, r_samples = samples,
                    r_transmitted = transmitted_total, r_transmitted_fraction = fraction,
                    r_bins = edges, r_counts = cnts,
                    r_runtime_seconds = t_end e - t_start e,
                    r_parallel_used = parallel, r_workers = nw \<rparr>,
                  if plot_ok e then Some Figure else None))))))"

text \<open>What a claim compares between two runs: the keys \<open>transmitted\<close>,
  \<open>transmitted_fraction\<close>, \<open>bins\<close> and \<open>counts\<close> of the result.\<close>

definition reproducible_part ::
  "sim_result \<times> figure option \<Rightarrow> int \<times> real \<times> real list \<times> int list" where
  "reproducible_part rf =
     (r_transmitted (fst rf), r_transmitted_fraction (fst rf), r_bins (fst rf), r_counts (fst rf))"

section \<open>Job store, submission and worker (app/app.py, app/utils.py)\<close>

subsection \<open>Records on disk\<close>

definition MAX_SAMPLES :: int where
  "MAX_SAMPLES = 1000"

definition ALLOWED_MATERIALS :: "string list" where
  "ALLOWED_MATERIALS = [''Aluminum'', ''Lead'', ''Water'']"

definition ALLOWED_THICKNESSES :: "real list" where
  "ALLOWED_THICKNESSES = [0.1, 0.5, 1.0, 2.0]"

text \<open>The JSON body of a submission; a missing key is \<open>None\<close>.\<close>

record payload =
  q_material :: "string option"
  q_thickness :: "real option"
  q_samples :: "int option"
  q_parallel :: "bool option"

text \<open>\<open>job_obj\<close>, the descriptor file.\<close>

record job =
  j_job_id :: string
  j_material :: string
  j_thickness :: real
  j_samples :: int
  j_parallel :: bool
  j_created_at :: real

text \<open>A status file: the status word and the one timestamp written with it
  (\<open>created_at\<close>, \<open>start_time\<close> or \<open>completed_at\<close>).\<close>

record status_rec =
  s_job_id :: string
  s_status :: string
  s_time_key :: string
  s_time :: real

text \<open>\<open>result_meta\<close>: the keys of the simulation result and the three keys the worker adds.\<close>

record result_meta =
  m_result :: sim_result
  m_job_id :: string
  m_plot :: string
  m_completed_at :: real

subsection \<open>Files\<close>

text \<open>
  A file in one of the four directories holds the JSON text of a value, or it is empty
  or cut short, and \<open>json.load\<close> raises on it.
\<close>

datatype 'a json_file = Json 'a | Unreadable

text \<open>
  How a file operation ends. \<open>write_json\<close> opens the path with mode \<open>w\<close>, which creates
  the file or empties it, and then dumps the value: it raises at \<open>open\<close>, and the
  directory is as before, or after \<open>open\<close>, and the file is left without its JSON text.
  Of a write that succeeds only the end is a state here: the moment between \<open>open\<close> and
  the end of \<open>json.dump\<close> is not an event of its own.
\<close>

datatype io = Succeeds | FailsAtOpen | FailsAfterOpen

definition write_json :: "io \<Rightarrow> (string \<rightharpoonup> 'a json_file) \<Rightarrow> string \<Rightarrow> 'a \<Rightarrow> (string \<rightharpoonup> 'a json_file)" where
  "write_json outcome dir path obj =
     (case outcome of
        Succeeds \<Rightarrow> dir(path \<mapsto> Json obj)
      | FailsAtOpen \<Rightarrow> dir
      | FailsAfterOpen \<Rightarrow> dir(path \<mapsto> Unreadable))"

text \<open>\<open>read_json\<close>: a missing file and a file without its JSON text raise.\<close>

definition read_json :: "(string \<rightharpoonup> 'a json_file) \<Rightarrow> string \<Rightarrow> error + 'a" where
  "read_json dir path =
     (case dir path of
        None \<Rightarrow> Inl OSError
      | Some Unreadable \<Rightarrow> Inl JSONDecodeError
      | Some (Json obj) \<Rightarrow> Inr obj)"

subsection \<open>State\<close>

text \<open>
  Where the worker thread stands in the body of its loop; the job id is its local
  \<open>jobid\<close>, the result its local \<open>result\<close>.
  \<^item> \<open>Poll\<close>: at the top of the loop, before \<open>os.listdir\<close>;
  \<^item> \<open>Moved\<close>: after \<open>os.rename\<close>, before the status file is written with \<open>running\<close>;
  \<^item> \<open>Started\<close>: before \<open>read_json(procpath)\<close> and \<open>run_simulation\<close>;
  \<^item> \<open>Simulated\<close>: before the result file is written;
  \<^item> \<open>Saved\<close>: before the status file is written with \<open>done\<close>;
  \<^item> \<open>Finished\<close>: before \<open>os.remove(procpath)\<close>.
\<close>

datatype wpc =
    Poll
  | Moved string
  | Started string
  | Simulated string sim_result
  | Saved string
  | Finished string

fun pc_job :: "wpc \<Rightarrow> string option" where
  "pc_job Poll = None"
| "pc_job (Moved j) = Some j"
| "pc_job (Started j) = Some j"
| "pc_job (Simulated j r) = Some j"
| "pc_job (Saved j) = Some j"
| "pc_job (Finished j) = Some j"

text \<open>
  The four directories hold one \<open>.json\<close> file per job id, and \<open>getctime\<close> is the creation
  time of the file of a job id in \<open>jobs\<close>. Three fields are not on disk: \<open>issued\<close>, the
  ids \<open>new_job_id\<close> has returned; \<open>pending\<close>, the submit requests that have written the
  descriptor and not yet the status file, with their \<open>created_at\<close>; \<open>result_writes\<close>, how
  many times a write has opened the result file of a job.
\<close>

record state =
  jobs_dir :: "string \<rightharpoonup> job json_file"
  processing_dir :: "string \<rightharpoonup> job json_file"
  status_dir :: "string \<rightharpoonup> status_rec json_file"
  results_dir :: "string \<rightharpoonup> result_meta json_file"
  getctime :: "string \<Rightarrow> real"
  issued :: "string set"
  pending :: "string \<rightharpoonup> real"
  result_writes :: "string \<Rightarrow> nat"
  pc :: wpc

definition init :: state where
  "init = \<lparr> jobs_dir = Map.empty, processing_dir = Map.empty, status_dir = Map.empty,
            results_dir = Map.empty, getctime = (\<lambda>j. 0), issued = {}, pending = Map.empty,
            result_writes = (\<lambda>j. 0), pc = Poll \<rparr>"

text \<open>The status word of a job, as \<open>/api/status\<close> reads it, and its result, as
  \<open>/api/result\<close> reads it: none when the file is missing or cannot be read.\<close>

definition status_of :: "state \<Rightarrow> string \<Rightarrow> string option" where
  "status_of s jobid =
     (case status_dir s jobid of Some (Json st) \<Rightarrow> Some (s_status st) | _ \<Rightarrow> None)"

definition result_of :: "state \<Rightarrow> string \<Rightarrow> result_meta option" where
  "result_of s jobid =
     (case results_dir s jobid of Some (Json m) \<Rightarrow> Some m | _ \<Rightarrow> None)"

subsection \<open>Submission\<close>

datatype response =
    Accepted string
  | Rejected string
  | ServerError

text \<open>
  \<open>submit\<close>, from the top to \<open>write_json(job_file_path(job_id), job_obj)\<close>. \<open>uuid\<close> is what
  \<open>new_job_id()\<close> returns, \<open>now\<close> what \<open>time.time()\<close> returns, \<open>outcome\<close> how the write
  ends. A response is \<open>Rejected\<close> with status 400, or \<open>ServerError\<close> when the write
  raises; \<open>None\<close> means that the handler goes on to the status file. A material that is
  missing from the body is Python's \<open>None\<close>, which is not in the list. The creation time
  of the descriptor file is taken to be the clock value the handler has just read.
\<close>

definition submit ::
  "payload \<Rightarrow> string \<Rightarrow> real \<Rightarrow> io \<Rightarrow> state \<Rightarrow> response option \<times> state" where
  "submit p uuid now outcome s =
     (let thickness = (case q_thickness p of None \<Rightarrow> 1.0 | Some t \<Rightarrow> t);
          samples = (case q_samples p of None \<Rightarrow> 100 | Some n \<Rightarrow> n);
          parallel = (case q_parallel p of None \<Rightarrow> False | Some b \<Rightarrow> b)
      in case q_material p of
           None \<Rightarrow> (Some (Rejected ''invalid material''), s)
         | Some material \<Rightarrow>
             if material \<notin> set ALLOWED_MATERIALS
             then (Some (Rejected ''invalid material''), s)
             else if thickness \<notin> set ALLOWED_THICKNESSES
             then (Some (Rejected ''invalid thickness''), s)
             else if samples \<le> 0 \<or> samples > MAX_SAMPLES
             then (Some (Rejected ''samples out of allowed range''), s)
             else
               (let s1 = s\<lparr>issued := insert uuid (issued s)\<rparr>;
                    job_obj = \<lparr> j_job_id = uuid, j_material = material,
                                j_thickness = thickness, j_samples = samples,
                                j_parallel = parallel, j_created_at = now \<rparr>;
                    s2 = s1\<lparr>jobs_dir := write_json outcome (jobs_dir s1) uuid job_obj,
                            getctime := (if outcome = FailsAtOpen then getctime s1
                                         else (getctime s1)(uuid := now))\<rparr>
                in if outcome = Succeeds
                   then (None, s2\<lparr>pending := (pending s2)(uuid \<mapsto> now)\<rparr>)
                   else (Some ServerError, s2)))"

text \<open>
  The rest of \<open>submit\<close>: the initial status file, then the response. The write to
  DynamoDB between the two changes nothing here, and its exceptions are swallowed.
\<close>

definition submit_status :: "string \<Rightarrow> real \<Rightarrow> io \<Rightarrow> state \<Rightarrow> response \<times> state" where
  "submit_status job_id created_at outcome s =
     (let s1 = s\<lparr>pending := (pending s)(job_id := None),
                  status_dir := write_json outcome (status_dir s) job_id
                     \<lparr> s_job_id = job_id, s_status = ''queued'',
                       s_time_key = ''created_at'', s_time = created_at \<rparr>\<rparr>
      in (if outcome = Succeeds then Accepted job_id else ServerError, s1))"

subsection \<open>Worker\<close>

text \<open>
  What one operation of the worker reads from outside: the first file name after the
  sort by creation time, how the file operation ends, the clock, and the environment of
  the simulation call.
\<close>

record wenv =
  w_pick :: string
  w_io :: io
  w_now :: real
  w_env :: env

text \<open>\<open>files.sort(key=getctime); files[0]\<close>: a file in \<open>jobs\<close> that no other is older than.\<close>

definition oldest :: "(string \<rightharpoonup> job json_file) \<Rightarrow> (string \<Rightarrow> real) \<Rightarrow> string \<Rightarrow> bool" where
  "oldest dir ct f =
     (case dir f of
        None \<Rightarrow> False
      | Some d \<Rightarrow> (\<forall>k. case dir k of None \<Rightarrow> True | Some d' \<Rightarrow> ct f \<le> ct k))"

text \<open>
  The next operation inside the \<open>try\<close> block, with the exception it raises, if any, and
  the state it leaves. \<open>os.rename\<close>, \<open>os.remove\<close> and \<open>read_json\<close> change nothing when they
  raise; a write that raises leaves what \<open>write_json\<close> leaves. The plot file and the
  uploads to S3 are outside the four directories, and their exceptions are swallowed
  where they occur.
\<close>

definition worker_op :: "rng \<Rightarrow> wenv \<Rightarrow> state \<Rightarrow> error option \<times> state" where
  "worker_op G w s =
     (case pc s of
        Poll \<Rightarrow>
          if jobs_dir s = Map.empty then (None, s)
          else if w_io w \<noteq> Succeeds then (Some OSError, s)
          else (None, s\<lparr>jobs_dir := (jobs_dir s)(w_pick w := None),
                        processing_dir := (processing_dir s)(w_pick w := jobs_dir s (w_pick w)),
                        pc := Moved (w_pick w)\<rparr>)
      | Moved jobid \<Rightarrow>
          (let s1 = s\<lparr>status_dir := write_json (w_io w) (status_dir s) jobid
                          \<lparr> s_job_id = jobid, s_status = ''running'',
                            s_time_key = ''start_time'', s_time = w_now w \<rparr>\<rparr>
           in if w_io w = Succeeds then (None, s1\<lparr>pc := Started jobid\<rparr>)
              else (Some OSError, s1))
      | Started jobid \<Rightarrow>
          (case (if w_io w = Succeeds then read_json (processing_dir s) jobid
                 else Inl OSError) of
             Inl err \<Rightarrow> (Some err, s)
           | Inr job \<Rightarrow>
               (case run_simulation G (w_env w)
                       \<lparr> p_material = Some (j_material job),
                         p_thickness = Some (j_thickness job),
                         p_samples = Some (j_samples job), p_seed = None \<rparr>
                       (j_parallel job) None of
                  Inl err \<Rightarrow> (Some err, s)
                | Inr (result, fig) \<Rightarrow> (None, s\<lparr>pc := Simulated jobid result\<rparr>)))
      | Simulated jobid result \<Rightarrow>
          (let s1 = s\<lparr>results_dir := write_json (w_io w) (results_dir s) jobid
                          \<lparr> m_result = result, m_job_id = jobid,
                            m_plot = ''/results/'' @ jobid @ ''.png'',
                            m_completed_at = w_now w \<rparr>,
                        result_writes :=
                          (if w_io w = FailsAtOpen then result_writes s
                           else (result_writes s)(jobid := Suc (result_writes s jobid)))\<rparr>
           in if w_io w = Succeeds then (None, s1\<lparr>pc := Saved jobid\<rparr>)
              else (Some OSError, s1))
      | Saved jobid \<Rightarrow>
          (let s1 = s\<lparr>status_dir := write_json (w_io w) (status_dir s) jobid
                          \<lparr> s_job_id = jobid, s_status = ''done'',
                            s_time_key = ''completed_at'', s_time = w_now w \<rparr>\<rparr>
           in if w_io w = Succeeds then (None, s1\<lparr>pc := Finished jobid\<rparr>)
              else (Some OSError, s1))
      | Finished jobid \<Rightarrow>
          if w_io w \<noteq> Succeeds then (Some OSError, s)
          else (None, s\<lparr>processing_dir := (processing_dir s)(jobid := None), pc := Poll\<rparr>))"

text \<open>
  One operation of \<open>worker_loop\<close>: an exception is caught by \<open>except Exception\<close>, which
  prints, sleeps and goes back to the top of the loop; nothing else happens to the job.
\<close>

definition worker_step :: "rng \<Rightarrow> wenv \<Rightarrow> state \<Rightarrow> state" where
  "worker_step G w s =
     (case worker_op G w s of (None, s') \<Rightarrow> s' | (Some err, s') \<Rightarrow> s'\<lparr>pc := Poll\<rparr>)"

subsection \<open>The system\<close>

text \<open>
  The request threads and the worker thread interleave at the file operations. An event
  is one of them, with what it reads from outside. There is one worker thread, the one
  that \<open>start_worker\<close> starts.
\<close>

datatype event =
    SubmitRequest payload string real io
  | SubmitStatus string io
  | WorkerStep wenv

text \<open>
  An event that cannot occur gives \<open>None\<close>: \<open>new_job_id\<close> returns an id it has not
  returned before (its docstring: a unique job ID); a status write belongs to a pending
  request; and the worker moves an oldest descriptor.
\<close>

fun step :: "rng \<Rightarrow> state \<Rightarrow> event \<Rightarrow> state option" where
  "step G s (SubmitRequest p uuid now outcome) =
     (if uuid \<in> issued s then None else Some (snd (submit p uuid now outcome s)))"
| "step G s (SubmitStatus job_id outcome) =
     (case pending s job_id of
        None \<Rightarrow> None
      | Some created_at \<Rightarrow> Some (snd (submit_status job_id created_at outcome s)))"
| "step G s (WorkerStep w) =
     (if pc s = Poll \<and> jobs_dir s \<noteq> Map.empty
           \<and> \<not> oldest (jobs_dir s) (getctime s) (w_pick w) then None
      else Some (worker_step G w s))"

fun run :: "rng \<Rightarrow> state \<Rightarrow> event list \<Rightarrow> state option" where
  "run G s [] = Some s"
| "run G s (e # es) = (case step G s e of None \<Rightarrow> None | Some s' \<Rightarrow> run G s' es)"

subsection \<open>Sample generators, sample inputs and the states of a sample run\<close>

text \<open>A generator that returns its seed as every sample, and one whose samples rise
  from 0 in steps of the seed.\<close>

definition G0 :: rng where
  "G0 seed scale n = replicate n (real seed)"

definition G1 :: rng where
  "G1 seed scale n = map (\<lambda>i. real (seed * i)) [0..<n]"

definition env0 :: env where
  "env0 = \<lparr> os_entropy = 3, cpu_count = 2, pool_ok = True, t_start = 0, t_end = 1,
            plot_ok = True \<rparr>"

text \<open>Another environment, and a call with a seed.\<close>

definition env1 :: env where
  "env1 = \<lparr> os_entropy = 977, cpu_count = 8, pool_ok = False, t_start = 5, t_end = 9,
            plot_ok = False \<rparr>"

definition params42 :: params where
  "params42 = \<lparr> p_material = Some ''Lead'', p_thickness = Some 0.5, p_samples = Some 1,
                p_seed = Some 42 \<rparr>"

text \<open>A call whose two samples are 0 and 100, and its result: the sample 100 is above
  the last edge, 95.\<close>

definition params_ramp :: params where
  "params_ramp = \<lparr> p_material = Some ''Water'', p_thickness = Some 1, p_samples = Some 2,
                   p_seed = Some 100 \<rparr>"

definition result_ramp :: sim_result where
  "result_ramp = \<lparr> r_material = ''Water'', r_thickness = 1, r_samples = 2, r_transmitted = 1,
                    r_transmitted_fraction = 1 / 2,
                    r_bins = [0, 5, 10, 15, 20, 25, 30, 35, 40, 45, 50, 55, 60, 65, 70, 75,
                              80, 85, 90, 95],
                    r_counts = [1, 0, 0, 0, 0, 0, 0, 0, 0, 0, 0, 0, 0, 0, 0, 0, 0, 0, 0],
                    r_runtime_seconds = 1, r_parallel_used = False, r_workers = 1 \<rparr>"

definition payload0 :: payload where
  "payload0 = \<lparr> q_material = Some ''Lead'', q_thickness = Some 0.5, q_samples = Some 1,
                q_parallel = Some True \<rparr>"

text \<open>Worker operations that succeed, that raise at \<open>open\<close>, that raise after \<open>open\<close>, and
  whose simulation cannot start its pool.\<close>

definition ok0 :: wenv where
  "ok0 = \<lparr> w_pick = ''a1'', w_io = Succeeds, w_now = 2, w_env = env0 \<rparr>"

definition fail0 :: wenv where
  "fail0 = \<lparr> w_pick = ''a1'', w_io = FailsAtOpen, w_now = 2, w_env = env0 \<rparr>"

definition cut0 :: wenv where
  "cut0 = \<lparr> w_pick = ''a1'', w_io = FailsAfterOpen, w_now = 2, w_env = env0 \<rparr>"

definition nopool0 :: wenv where
  "nopool0 = \<lparr> w_pick = ''a1'', w_io = Succeeds, w_now = 2, w_env = env0\<lparr>pool_ok := False\<rparr> \<rparr>"

definition job0 :: job where
  "job0 = \<lparr> j_job_id = ''a1'', j_material = ''Lead'', j_thickness = 0.5, j_samples = 1,
             j_parallel = True, j_created_at = 1 \<rparr>"

definition params0 :: params where
  "params0 = \<lparr> p_material = Some ''Lead'', p_thickness = Some 0.5, p_samples = Some 1,
               p_seed = None \<rparr>"

definition result0 :: sim_result where
  "result0 = \<lparr> r_material = ''Lead'', r_thickness = 0.5, r_samples = 1, r_transmitted = 1,
                r_transmitted_fraction = 1,
                r_bins = [0, 3 / 19, 6 / 19, 9 / 19, 12 / 19, 15 / 19, 18 / 19, 21 / 19,
                          24 / 19, 27 / 19, 30 / 19, 33 / 19, 36 / 19, 39 / 19, 42 / 19,
                          45 / 19, 48 / 19, 51 / 19, 54 / 19, 3],
                r_counts = [0, 0, 0, 0, 0, 0, 0, 0, 0, 0, 0, 0, 0, 0, 0, 0, 0, 0, 1],
                r_runtime_seconds = 1, r_parallel_used = True, r_workers = 2 \<rparr>"

definition status0 :: "string \<Rightarrow> string \<Rightarrow> real \<Rightarrow> status_rec" where
  "status0 word key t = \<lparr> s_job_id = ''a1'', s_status = word, s_time_key = key, s_time = t \<rparr>"

text \<open>Job \<open>a1\<close> is submitted; the worker moves its descriptor, marks it \<open>running\<close>, runs
  the simulation, writes the result and marks it \<open>done\<close>.\<close>

definition st_pending :: state where
  "st_pending = init\<lparr>jobs_dir := [''a1'' \<mapsto> Json job0], getctime := (\<lambda>j. 0)(''a1'' := 1),
                      issued := {''a1''}, pending := [''a1'' \<mapsto> 1]\<rparr>"

definition st_queued :: state where
  "st_queued = st_pending\<lparr>status_dir := [''a1'' \<mapsto> Json (status0 ''queued'' ''created_at'' 1)],
                           pending := Map.empty\<rparr>"

definition st_moved :: state where
  "st_moved = st_queued\<lparr>jobs_dir := Map.empty, processing_dir := [''a1'' \<mapsto> Json job0],
                         pc := Moved ''a1''\<rparr>"

definition st_started :: state where
  "st_started = st_moved\<lparr>status_dir := [''a1'' \<mapsto> Json (status0 ''running'' ''start_time'' 2)],
                          pc := Started ''a1''\<rparr>"

definition st_simulated :: state where
  "st_simulated = st_started\<lparr>pc := Simulated ''a1'' result0\<rparr>"

definition st_saved :: state where
  "st_saved = st_simulated\<lparr>results_dir := [''a1'' \<mapsto>
                                 Json \<lparr> m_result = result0, m_job_id = ''a1'',
                                        m_plot = ''/results/a1.png'', m_completed_at = 2 \<rparr>],
                               result_writes := (\<lambda>j. 0)(''a1'' := 1),
                               pc := Saved ''a1''\<rparr>"

definition st_done :: state where
  "st_done = st_saved\<lparr>status_dir := [''a1'' \<mapsto> Json (status0 ''done'' ''completed_at'' 2)],
                        pc := Finished ''a1''\<rparr>"

text \<open>The write of \<open>done\<close> has raised after \<open>open\<close>: the status file is empty.\<close>

definition st_cut :: state where
  "st_cut = st_saved\<lparr>status_dir := [''a1'' \<mapsto> Unreadable], pc := Poll\<rparr>"

definition trace_moved :: "event list" where
  "trace_moved = [SubmitRequest payload0 ''a1'' 1 Succeeds, SubmitStatus ''a1'' Succeeds,
                  WorkerStep ok0]"

definition trace_started :: "event list" where
  "trace_started = trace_moved @ [WorkerStep ok0]"

definition trace_saved :: "event list" where
  "trace_saved = trace_started @ [WorkerStep ok0, WorkerStep ok0]"

definition trace_done :: "event list" where
  "trace_done = trace_saved @ [WorkerStep ok0]"

subsection \<open>Invariants\<close>

text \<open>
  What holds in every state the system reaches:
  \<^item> every file in \<open>jobs\<close> or \<open>processing\<close>, and every result file opened, is of an issued
    id;
  \<^item> no id is in \<open>jobs\<close> and in \<open>processing\<close>;
  \<^item> a result file is opened for writing at most once, it exists exactly when it has
    been, and never for a job that is still in \<open>jobs\<close>;
  \<^item> a status word is \<open>queued\<close>, \<open>running\<close> or \<open>done\<close>, and \<open>done\<close> only with a result that
    can be read;
  \<^item> the job the worker is processing is in \<open>processing\<close> and not in \<open>jobs\<close>, without a
    result file until the worker has written it.
\<close>

definition in_flight :: "state \<Rightarrow> string \<Rightarrow> bool" where
  "in_flight s j \<longleftrightarrow> j \<in> issued s \<and> jobs_dir s j = None \<and> processing_dir s j \<noteq> None"

fun pc_inv :: "wpc \<Rightarrow> state \<Rightarrow> bool" where
  "pc_inv Poll s = True"
| "pc_inv (Moved j) s = (in_flight s j \<and> result_writes s j = 0)"
| "pc_inv (Started j) s = (in_flight s j \<and> result_writes s j = 0)"
| "pc_inv (Simulated j r) s = (in_flight s j \<and> result_writes s j = 0)"
| "pc_inv (Saved j) s = (in_flight s j \<and> result_of s j \<noteq> None)"
| "pc_inv (Finished j) s = (in_flight s j \<and> result_of s j \<noteq> None)"

definition store_inv :: "state \<Rightarrow> bool" where
  "store_inv s \<longleftrightarrow>
       (\<forall>j. jobs_dir s j \<noteq> None \<longrightarrow>
              j \<in> issued s \<and> processing_dir s j = None \<and> result_writes s j = 0)
     \<and> (\<forall>j. processing_dir s j \<noteq> None \<longrightarrow> j \<in> issued s)
     \<and> (\<forall>j. 0 < result_writes s j \<longrightarrow> j \<in> issued s)
     \<and> (\<forall>j. result_writes s j \<le> 1)
     \<and> (\<forall>j. results_dir s j \<noteq> None \<longrightarrow> 0 < result_writes s j)
     \<and> (\<forall>j. 0 < result_writes s j \<longrightarrow> results_dir s j \<noteq> None)
     \<and> (\<forall>j w. status_of s j = Some w \<longrightarrow> w \<in> {''queued'', ''running'', ''done''})
     \<and> (\<forall>j. status_of s j = Some ''done'' \<longrightarrow> result_of s j \<noteq> None)
     \<and> pc_inv (pc s) s"

text \<open>
  A job the worker has left behind: claimed, its submit request over, its status
  \<open>running\<close>, and the worker elsewhere.
\<close>

definition stuck :: "string \<Rightarrow> state \<Rightarrow> bool" where
  "stuck j s \<longleftrightarrow>
       j \<in> issued s \<and> jobs_dir s j = None \<and> processing_dir s j \<noteq> None
     \<and> pending s j = None \<and> status_of s j = Some ''running'' \<and> pc_job (pc s) \<noteq> Some j"

section \<open>Properties of the simulation engine\<close>

subsection \<open>The chunk loop\<close>

lemma sum_chunks: "0 \<le> i \<Longrightarrow> i \<le> n \<Longrightarrow> 0 \<le> base \<Longrightarrow> rem \<le> n \<Longrightarrow>
  sum_list (map fst (chunks_from i n base rem mu t off)) = (n - i) * base + max 0 (rem - i)"
proof (induction i n base rem mu t off rule: chunks_from.induct)
  case (1 i n base rem mu t off)
  show ?case
  proof (cases "i < n")
    case True
    let ?cnt = "base + (if i < rem then 1 else 0)"
    let ?rest = "chunks_from (i + 1) n base rem mu t off"
    have ih: "sum_list (map fst ?rest) = (n - (i + 1)) * base + max 0 (rem - (i + 1))"
      using 1 True by simp
    have unfold: "sum_list (map fst (chunks_from i n base rem mu t off))
        = ?cnt + sum_list (map fst ?rest)"
      using True 1(4) by (subst chunks_from.simps) (simp add: Let_def)
    show ?thesis
      unfolding unfold ih by (simp add: algebra_simps max_def)
  next
    case False
    with 1 show ?thesis by (subst chunks_from.simps) simp
  qed
qed



lemma seeds_of_chunks: "0 \<le> i \<Longrightarrow>
  map (\<lambda>(c, m, t, s). s) (chunks_from i n base rem mu t off) = 
  map (\<lambda>j. off + nat j) (filter (\<lambda>j. 0 < base + (if j < rem then 1 else 0)) [i..n - 1])"
proof (induction i n base rem mu t off rule: chunks_from.induct)
  case (1 i n base rem mu t off)
  show ?case
  proof (cases "i < n")
    case True
    have "[i..n - 1] = i # [i + 1..n - 1]" using True by (simp add: upto_rec1)
    with 1 True show ?thesis
      by (subst chunks_from.simps) (simp add: Let_def)
  next
    case False
    then show ?thesis by (subst chunks_from.simps) simp
  qed
qed

lemma offset_seed_cases:
  "offset_seed None entropy = entropy"
  "offset_seed (Some 0) entropy = entropy"
  "s \<noteq> 0 \<Longrightarrow> offset_seed (Some s) entropy = s"
  by (simp_all add: offset_seed_def)

lemma chunks_from_members:
  "(c, m, t, s) \<in> set (chunks_from i n base rem mu th off) \<Longrightarrow> m = mu \<and> t = th \<and> 0 < c"
proof (induction i n base rem mu th off rule: chunks_from.induct)
  case (1 i n base rem mu th off)
  show ?case
  proof (cases "i < n")
    case True
    from "1.prems" True
    have "(c, m, t, s) = (base + (if i < rem then 1 else 0), mu, th, off + nat i)
            \<and> 0 < base + (if i < rem then 1 else 0)
          \<or> (c, m, t, s) \<in> set (chunks_from (i + 1) n base rem mu th off)"
      by (subst (asm) chunks_from.simps) (auto simp add: Let_def split: if_splits)
    then show ?thesis
    proof
      assume "(c, m, t, s) = (base + (if i < rem then 1 else 0), mu, th, off + nat i)
            \<and> 0 < base + (if i < rem then 1 else 0)"
      then show ?thesis by auto
    next
      assume "(c, m, t, s) \<in> set (chunks_from (i + 1) n base rem mu th off)"
      with "1.IH" [OF True refl] show ?thesis by simp
    qed
  next
    case False
    with "1.prems" show ?thesis by (subst (asm) chunks_from.simps) simp
  qed
qed

lemma chunks_from_nonpos: "n \<le> i \<Longrightarrow> chunks_from i n base rem mu th off = []"
  by (subst chunks_from.simps) simp

lemma sum_split:
  assumes "0 \<le> samples" and "1 \<le> n"
  shows "sum_list (map fst (chunks_from 0 n (samples div n) (samples mod n) mu t off)) = samples"
proof -
  have base: "0 \<le> samples div n" using assms by (simp add: pos_imp_zdiv_nonneg_iff)
  have rem: "0 \<le> samples mod n" "samples mod n \<le> n" using assms by (simp_all add: less_imp_le)
  have "sum_list (map fst (chunks_from 0 n (samples div n) (samples mod n) mu t off))
          = (n - 0) * (samples div n) + max 0 (samples mod n - 0)"
    using assms base rem by (intro sum_chunks) simp_all
  also have "\<dots> = n * (samples div n) + samples mod n" using rem by simp
  finally show ?thesis by simp
qed

subsection \<open>One chunk\<close>

lemma count_exceeding_replicate_PInf: "count_exceeding (replicate n PInf) t = int n"
  by (simp add: count_exceeding_def)

lemma single_chunk_sim_seeded:
  "single_chunk_sim G e1 samples mu thickness (Some s) = single_chunk_sim G e2 samples mu thickness (Some s)"
  by (simp add: single_chunk_sim_def)

lemma sample_paths_seeded:
  "sample_paths G e1 samples mu thickness (Some s) False nw1
     = sample_paths G e2 samples mu thickness (Some s) False nw2"
  by (simp add: sample_paths_def single_chunk_sim_seeded [of G "os_entropy e1" _ _ _ s "os_entropy e2"])

lemma finite_paths_map_Fin [simp]: "finite_paths (map Fin xs) = Some xs"
  by (induction xs) simp_all

lemma MATERIAL_MU_pos: "MATERIAL_MU m = Some mu \<Longrightarrow> 0 < mu"
  by (auto simp add: MATERIAL_MU_def split: if_splits)

text \<open>One chunk with a positive coefficient: finite samples, as many as asked for.\<close>

lemma single_chunk_sim_pos:
  assumes "0 < mu" and "single_chunk_sim G ent samples mu thickness seed = Inr (tr, paths)"
  shows "\<exists>xs. paths = map Fin xs \<and> 0 \<le> samples
         \<and> xs = G (case seed of Some s \<Rightarrow> s | None \<Rightarrow> ent) (1 / mu) (nat samples)"
  using assms
  by (auto simp add: single_chunk_sim_def py_truediv_def rng_exponential_def split: if_splits)

lemma single_chunk_sim_returns:
  assumes "0 < mu" and "0 \<le> samples"
  shows "\<exists>tr xs. single_chunk_sim G ent samples mu thickness seed = Inr (tr, map Fin xs)"
  using assms
  by (auto simp add: single_chunk_sim_def Let_def py_truediv_def rng_exponential_def)

subsection \<open>Edges, percentile and histogram\<close>

lemma length_np_linspace [simp]: "length (np_linspace a b n) = n"
  by (simp add: np_linspace_def)

lemma nth_np_linspace: "i < n \<Longrightarrow> np_linspace a b n ! i = real i * ((b - a) / real (n - 1)) + a"
  by (simp add: np_linspace_def)

lemma length_cum_counts [simp]: "length (cum_counts xs es) = length es"
  by (induction xs es rule: cum_counts.induct) simp_all

lemma length_np_diff [simp]: "length (np_diff cs) = length cs - 1"
  by (induction cs rule: np_diff.induct) simp_all

lemma sum_list_np_diff: "cs \<noteq> [] \<Longrightarrow> sum_list (np_diff cs) = last cs - hd cs"
  by (induction cs rule: np_diff.induct) simp_all

lemma cum_counts_eq_Nil [simp]: "cum_counts xs es = [] \<longleftrightarrow> es = []"
  by (induction xs es rule: cum_counts.induct) simp_all

lemma last_cum_counts:
  "es \<noteq> [] \<Longrightarrow> last (cum_counts xs es) = int (length (filter (\<lambda>x. x \<le> last es) xs))"
  by (induction xs es rule: cum_counts.induct) simp_all

lemma hd_cum_counts_nonneg: "es \<noteq> [] \<Longrightarrow> 0 \<le> hd (cum_counts xs es)"
  by (induction xs es rule: cum_counts.induct) simp_all

lemma sum_counts_le:
  assumes "es \<noteq> []"
  shows "sum_list (np_diff (cum_counts xs es)) \<le> int (length xs)"
proof -
  have ne: "cum_counts xs es \<noteq> []" using assms by simp
  have "sum_list (np_diff (cum_counts xs es)) = last (cum_counts xs es) - hd (cum_counts xs es)"
    by (rule sum_list_np_diff [OF ne])
  also have "\<dots> \<le> last (cum_counts xs es)"
    using hd_cum_counts_nonneg [OF assms, of xs] by simp
  also have "\<dots> \<le> int (length xs)"
    by (simp add: last_cum_counts [OF assms])
  finally show ?thesis .
qed

lemma np_histogram_Inr:
  assumes "np_histogram xs edges = Inr (cnts, edges')"
  shows "edges' = edges" and "length cnts = length edges - 1"
    and "edges \<noteq> [] \<Longrightarrow> sum_list cnts \<le> int (length xs)"
  using assms sum_counts_le [of edges xs]
  by (auto simp add: np_histogram_def split: if_splits)

lemma monotone_edges_nth:
  "monotone_edges es \<longleftrightarrow> (\<forall>i. Suc i < length es \<longrightarrow> es ! i \<le> es ! Suc i)"
proof (induction es rule: monotone_edges.induct)
  case (1 a b es)
  show ?case
  proof
    assume h: "monotone_edges (a # b # es)"
    show "\<forall>i. Suc i < length (a # b # es) \<longrightarrow> (a # b # es) ! i \<le> (a # b # es) ! Suc i"
    proof (intro allI impI)
      fix i assume "Suc i < length (a # b # es)"
      with h 1 show "(a # b # es) ! i \<le> (a # b # es) ! Suc i" by (cases i) auto
    qed
  next
    assume h: "\<forall>i. Suc i < length (a # b # es) \<longrightarrow> (a # b # es) ! i \<le> (a # b # es) ! Suc i"
    then have "a \<le> b" by (metis length_Cons nth_Cons_0 nth_Cons_Suc zero_less_Suc Suc_less_eq)
    moreover have "\<forall>i. Suc i < length (b # es) \<longrightarrow> (b # es) ! i \<le> (b # es) ! Suc i"
    proof (intro allI impI)
      fix i assume "Suc i < length (b # es)"
      then have "Suc (Suc i) < length (a # b # es)" by simp
      with h have "(a # b # es) ! Suc i \<le> (a # b # es) ! Suc (Suc i)" by blast
      then show "(b # es) ! i \<le> (b # es) ! Suc i" by simp
    qed
    ultimately show "monotone_edges (a # b # es)" using 1 by simp
  qed
qed simp_all

lemma monotone_np_linspace:
  assumes "0 \<le> stop"
  shows "monotone_edges (np_linspace 0 stop n)"
  unfolding monotone_edges_nth
proof (intro allI impI)
  fix i assume i: "Suc i < length (np_linspace 0 stop n)"
  then have "1 < n" by simp
  then have step: "0 \<le> (stop - 0) / real (n - 1)" using assms by simp
  have "real i * ((stop - 0) / real (n - 1)) \<le> real (Suc i) * ((stop - 0) / real (n - 1))"
    by (rule mult_right_mono [OF _ step]) simp
  with i show "np_linspace 0 stop n ! i \<le> np_linspace 0 stop n ! Suc i"
    by (simp only: nth_np_linspace length_np_linspace Suc_lessD)
qed

lemma np_percentile_nonneg:
  assumes ne: "xs \<noteq> []" and nn: "\<forall>x \<in> set xs. 0 \<le> x" and q: "0 \<le> q" "q \<le> 100"
  shows "0 \<le> np_percentile xs q"
proof -
  define s where "s = sort xs"
  define n where "n = length s"
  define h where "h = real (n - 1) * q / 100"
  define lo where "lo = nat \<lfloor>h\<rfloor>"
  define hi where "hi = min (lo + 1) (n - 1)"
  define g where "g = h - real lo"
  have n: "0 < n" using ne by (simp add: n_def s_def)
  have h0: "0 \<le> h" using q by (simp add: h_def)
  have "h \<le> real (n - 1) * 100 / 100"
    unfolding h_def using q by (intro divide_right_mono mult_left_mono) simp_all
  then have h1: "h \<le> real (n - 1)" by simp
  have lo_eq: "real lo = of_int \<lfloor>h\<rfloor>" using h0 by (simp add: lo_def)
  have "\<lfloor>h\<rfloor> \<le> int (n - 1)" using h1 by (simp add: floor_le_iff)
  then have lo: "lo < n" using n unfolding lo_def by linarith
  have "hi \<le> n - 1" unfolding hi_def by (rule min.cobounded2)
  then have hi: "hi < n" using n by linarith
  have g0: "0 \<le> g" unfolding g_def lo_eq by linarith
  have g1: "g \<le> 1" unfolding g_def lo_eq by linarith
  have a: "0 \<le> s ! lo" using nn lo unfolding n_def s_def by (metis nth_mem set_sort)
  have b: "0 \<le> s ! hi" using nn hi unfolding n_def s_def by (metis nth_mem set_sort)
  have "0 \<le> s ! lo * (1 - g) + s ! hi * g"
    using a b g0 g1 by (intro add_nonneg_nonneg mult_nonneg_nonneg) simp_all
  also have "\<dots> = s ! lo + (s ! hi - s ! lo) * g"
    by (simp add: algebra_simps)
  finally show ?thesis
    by (simp add: np_percentile_def Let_def s_def n_def h_def lo_def hi_def g_def)
qed

lemma hist_stop_nonneg:
  "xs \<noteq> [] \<Longrightarrow> \<forall>x \<in> set xs. 0 \<le> x \<Longrightarrow> 0 \<le> hist_stop thickness xs"
  using np_percentile_nonneg [of xs 95] by (simp add: hist_stop_def max_def)

lemma count_below_diff:
  fixes a b :: real
  assumes "a \<le> b"
  shows "int (length (filter (\<lambda>x. x < b) xs)) - int (length (filter (\<lambda>x. x < a) xs))
           = int (length (filter (\<lambda>x. a \<le> x \<and> x < b) xs))"
  using assms by (induction xs) auto

lemma count_upto_diff:
  fixes a b :: real
  assumes "a \<le> b"
  shows "int (length (filter (\<lambda>x. x \<le> b) xs)) - int (length (filter (\<lambda>x. x < a) xs))
           = int (length (filter (\<lambda>x. a \<le> x \<and> x \<le> b) xs))"
  using assms by (induction xs) auto

lemma nth_cum_counts:
  "i < length es \<Longrightarrow>
     cum_counts xs es ! i
       = int (length (filter (\<lambda>x. if Suc i = length es then x \<le> es ! i else x < es ! i) xs))"
proof (induction xs es arbitrary: i rule: cum_counts.induct)
  case (1 xs)
  then show ?case by simp
next
  case (2 xs e)
  then show ?case by simp
next
  case (3 xs e v va)
  then show ?case by (cases i) simp_all
qed

lemma nth_np_diff: "Suc i < length cs \<Longrightarrow> np_diff cs ! i = cs ! Suc i - cs ! i"
proof (induction cs arbitrary: i rule: np_diff.induct)
  case (1 a b cs)
  then show ?case by (cases i) simp_all
qed simp_all

text \<open>Each count of a histogram is the number of values in its bin.\<close>

lemma np_histogram_counts:
  assumes hist: "np_histogram xs edges = Inr (cnts, edges')" and i: "Suc i < length edges"
  shows "cnts ! i = int (length (filter (in_bin edges i) xs))"
proof -
  from hist have mono: "monotone_edges edges" and cnts: "cnts = np_diff (cum_counts xs edges)"
    by (auto simp add: np_histogram_def split: if_splits)
  from mono i have le: "edges ! i \<le> edges ! Suc i" by (simp add: monotone_edges_nth)
  have "cnts ! i = cum_counts xs edges ! Suc i - cum_counts xs edges ! i"
    unfolding cnts using i by (simp add: nth_np_diff)
  also have "\<dots> = int (length (filter (in_bin edges i) xs))"
  proof (cases "Suc (Suc i) = length edges")
    case True
    then have "in_bin edges i = (\<lambda>x. edges ! i \<le> x \<and> x \<le> edges ! Suc i)"
      by (intro ext) (simp add: in_bin_def)
    with True i count_upto_diff [OF le, of xs] show ?thesis
      by (simp add: nth_cum_counts)
  next
    case False
    then have "in_bin edges i = (\<lambda>x. edges ! i \<le> x \<and> x < edges ! Suc i)"
      by (intro ext) (simp add: in_bin_def)
    with False i count_below_diff [OF le, of xs] show ?thesis
      by (simp add: nth_cum_counts)
  qed
  finally show ?thesis .
qed

lemma monotone_edges_le:
  assumes "monotone_edges es" and "i \<le> j" and "j < length es"
  shows "es ! i \<le> es ! j"
  using assms(2,3)
proof (induction j)
  case 0
  then show ?case by simp
next
  case (Suc j)
  show ?case
  proof (cases "i = Suc j")
    case True
    then show ?thesis by simp
  next
    case False
    with Suc.prems have "i \<le> j" "j < length es" by simp_all
    from Suc.IH [OF this] have "es ! i \<le> es ! j" .
    also from assms(1) Suc.prems(2) have "es ! j \<le> es ! Suc j" by (simp add: monotone_edges_nth)
    finally show ?thesis .
  qed
qed

text \<open>The counts of a histogram add up to the number of values from the first edge to the
  last: what lies outside is in no bin.\<close>

lemma np_histogram_sum:
  assumes hist: "np_histogram xs edges = Inr (cnts, edges')" and two: "1 < length edges"
  shows "sum_list cnts = int (length (filter (\<lambda>x. hd edges \<le> x \<and> x \<le> last edges) xs))"
proof -
  from hist have mono: "monotone_edges edges" and cnts: "cnts = np_diff (cum_counts xs edges)"
    by (auto simp add: np_histogram_def split: if_splits)
  from two have ne: "edges \<noteq> []" by auto
  have hd: "hd edges = edges ! 0" using ne by (simp add: hd_conv_nth)
  have le: "hd edges \<le> last edges"
    using monotone_edges_le [OF mono, of 0 "length edges - 1"] ne
    by (simp add: hd_conv_nth last_conv_nth)
  have first: "hd (cum_counts xs edges) = int (length (filter (\<lambda>x. x < hd edges) xs))"
    using two nth_cum_counts [of 0 edges xs] ne by (simp add: hd_conv_nth)
  have "sum_list cnts = last (cum_counts xs edges) - hd (cum_counts xs edges)"
    unfolding cnts using ne by (simp add: sum_list_np_diff)
  also have "\<dots> = int (length (filter (\<lambda>x. x \<le> last edges) xs))
                    - int (length (filter (\<lambda>x. x < hd edges) xs))"
    by (simp only: last_cum_counts [OF ne] first)
  also have "\<dots> = int (length (filter (\<lambda>x. hd edges \<le> x \<and> x \<le> last edges) xs))"
    by (rule count_upto_diff [OF le])
  finally show ?thesis .
qed

subsection \<open>The sampling stage and the whole call\<close>

text \<open>What the pool returns for chunks with a positive coefficient.\<close>

lemma starmap_Inr:
  assumes "rng_ok G" and "\<forall>(c, m, t, s) \<in> set chunks. 0 < m"
    and "starmap G chunks = Inr results"
  shows "\<exists>xs. concat (map snd results) = map Fin xs
            \<and> int (length xs) = sum_list (map fst chunks)
            \<and> (\<forall>x \<in> set xs. 0 \<le> x)"
  using assms(2,3)
proof (induction chunks arbitrary: results)
  case Nil
  then show ?case by simp
next
  case (Cons c chunks)
  obtain cnt m t s where c: "c = (cnt, m, t, s)" by (cases c) auto
  from Cons.prems(1) c have m: "0 < m" by simp
  from Cons.prems(2) c obtain tr paths rs where
    one: "single_chunk_sim G 0 cnt m t (Some s) = Inr (tr, paths)"
    and rest: "starmap G chunks = Inr rs" and res: "results = (tr, paths) # rs"
    by (auto split: sum.splits)
  from single_chunk_sim_pos [OF m one] obtain ys where
    ys: "paths = map Fin ys" "0 \<le> cnt" "ys = G s (1 / m) (nat cnt)" by auto
  from Cons.IH [OF _ rest] Cons.prems(1) obtain zs where
    zs: "concat (map snd rs) = map Fin zs" "int (length zs) = sum_list (map fst chunks)"
        "\<forall>x \<in> set zs. 0 \<le> x" by auto
  have len: "length ys = nat cnt" and nn: "\<forall>x \<in> set ys. 0 \<le> x"
    using assms(1) ys(3) by (simp_all add: rng_ok_def)
  show ?case
    by (rule exI [of _ "ys @ zs"]) (use res ys zs c len nn in auto)
qed

lemma starmap_returns:
  assumes "\<forall>(c, m, t, s) \<in> set chunks. 0 < m \<and> 0 < c"
  shows "\<exists>results. starmap G chunks = Inr results"
  using assms
proof (induction chunks)
  case Nil
  then show ?case by simp
next
  case (Cons c chunks)
  obtain cnt m t s where c: "c = (cnt, m, t, s)" by (cases c) auto
  with Cons.prems have "0 < m" "0 \<le> cnt" by auto
  from single_chunk_sim_returns [OF this, of G 0 t "Some s"] Cons c show ?case by auto
qed

text \<open>The sampling stage of a call with a positive coefficient and a positive trial count:
  when it returns, it returns exactly \<open>samples\<close> finite, non-negative path lengths.\<close>

lemma sample_paths_Inr:
  assumes G: "rng_ok G" and mu: "0 < mu" and pos: "0 < samples"
    and run: "sample_paths G e samples mu thickness seed parallel n_workers = Inr (tr, paths, nw)"
  shows "\<exists>xs. paths = map Fin xs \<and> int (length xs) = samples \<and> (\<forall>x \<in> set xs. 0 \<le> x)"
proof (cases parallel)
  case False
  with run obtain tr' where one:
    "single_chunk_sim G (os_entropy e) samples mu thickness seed = Inr (tr', paths)"
    by (auto simp add: sample_paths_def split: sum.splits)
  from single_chunk_sim_pos [OF mu one] G pos show ?thesis
    by (auto simp add: rng_ok_def)
next
  case True
  define n where "n = (case n_workers of None \<Rightarrow> min 4 (max 1 (cpu_count e)) | Some k \<Rightarrow> k)"
  define chunks where "chunks = chunks_from 0 n (samples div n) (samples mod n) mu thickness
                                  (offset_seed seed (os_entropy e))"
  from run True obtain results where ne: "chunks \<noteq> []"
    and sm: "starmap G chunks = Inr results" and paths: "paths = concat (map snd results)"
    by (auto simp add: sample_paths_def parallel_branch_def Let_def n_def chunks_def
          split: if_splits sum.splits)
  have n: "1 \<le> n"
  proof (rule ccontr)
    assume "\<not> 1 \<le> n"
    then have "chunks = []" unfolding chunks_def by (intro chunks_from_nonpos) simp
    with ne show False by simp
  qed
  have total: "sum_list (map fst chunks) = samples"
    unfolding chunks_def using pos n by (intro sum_split) simp_all
  have "\<forall>(c, m, t, s) \<in> set chunks. 0 < m"
    unfolding chunks_def using chunks_from_members mu by fastforce
  from starmap_Inr [OF G this sm] total paths show ?thesis by auto
qed

lemma sample_paths_returns:
  assumes mu: "0 < mu" and pos: "0 < samples"
    and par: "parallel \<longrightarrow> pool_ok e \<and> (\<forall>k. n_workers = Some k \<longrightarrow> 1 \<le> k)"
  shows "\<exists>tr paths nw. sample_paths G e samples mu thickness seed parallel n_workers = Inr (tr, paths, nw)"
proof (cases parallel)
  case False
  with single_chunk_sim_returns [OF mu, of samples G "os_entropy e" thickness seed] pos
  show ?thesis by (auto simp add: sample_paths_def)
next
  case True
  define n where "n = (case n_workers of None \<Rightarrow> min 4 (max 1 (cpu_count e)) | Some k \<Rightarrow> k)"
  define chunks where "chunks = chunks_from 0 n (samples div n) (samples mod n) mu thickness
                                  (offset_seed seed (os_entropy e))"
  have n: "1 \<le> n" using par True by (auto simp add: n_def split: option.splits)
  have "sum_list (map fst chunks) = samples"
    unfolding chunks_def using pos n by (intro sum_split) simp_all
  with pos have ne: "chunks \<noteq> []" by auto
  have "\<forall>(c, m, t, s) \<in> set chunks. 0 < m \<and> 0 < c"
    unfolding chunks_def using chunks_from_members mu by fastforce
  from starmap_returns [OF this, of G] obtain results where "starmap G chunks = Inr results" ..
  with ne n par True show ?thesis
    by (cases chunks) (auto simp add: sample_paths_def parallel_branch_def Let_def
          n_def [symmetric] chunks_def [symmetric])
qed

lemma starmap_Fin:
  assumes "\<forall>(c, m, t, s) \<in> set chunks. 0 < m" and "starmap G chunks = Inr results"
  shows "\<exists>xs. concat (map snd results) = map Fin xs"
  using assms
proof (induction chunks arbitrary: results)
  case Nil
  then show ?case by simp
next
  case (Cons c chunks)
  obtain cnt m t s where c: "c = (cnt, m, t, s)" by (cases c) auto
  from Cons.prems(1) c have m: "0 < m" by simp
  from Cons.prems(2) c obtain tr paths rs where
    one: "single_chunk_sim G 0 cnt m t (Some s) = Inr (tr, paths)"
    and rest: "starmap G chunks = Inr rs" and res: "results = (tr, paths) # rs"
    by (auto split: sum.splits)
  from single_chunk_sim_pos [OF m one] obtain ys where ys: "paths = map Fin ys" by auto
  from Cons.IH [OF _ rest] Cons.prems(1) obtain zs where
    zs: "concat (map snd rs) = map Fin zs" by auto
  show ?case by (rule exI [of _ "ys @ zs"]) (simp add: res ys zs)
qed

lemma sample_paths_Fin:
  assumes mu: "0 < mu"
    and run: "sample_paths G e samples mu thickness seed parallel n_workers = Inr (tr, paths, nw)"
  shows "\<exists>xs. paths = map Fin xs"
proof (cases parallel)
  case False
  with run obtain tr' where one:
    "single_chunk_sim G (os_entropy e) samples mu thickness seed = Inr (tr', paths)"
    by (auto simp add: sample_paths_def split: sum.splits)
  from single_chunk_sim_pos [OF mu one] show ?thesis by auto
next
  case True
  define n where "n = (case n_workers of None \<Rightarrow> min 4 (max 1 (cpu_count e)) | Some k \<Rightarrow> k)"
  define chunks where "chunks = chunks_from 0 n (samples div n) (samples mod n) mu thickness
                                  (offset_seed seed (os_entropy e))"
  from run True obtain results where
    sm: "starmap G chunks = Inr results" and paths: "paths = concat (map snd results)"
    by (auto simp add: sample_paths_def parallel_branch_def Let_def n_def chunks_def
          split: if_splits sum.splits)
  have "\<forall>(c, m, t, s) \<in> set chunks. 0 < m"
    unfolding chunks_def using chunks_from_members mu by fastforce
  from starmap_Fin [OF this sm] paths show ?thesis by simp
qed

lemma single_chunk_sim_not_NonFinite:
  "single_chunk_sim G ent samples mu thickness seed \<noteq> Inl NonFinite"
  by (auto simp add: single_chunk_sim_def Let_def np_full_def py_truediv_def rng_exponential_def
        split: if_splits sum.splits)

lemma starmap_not_NonFinite: "starmap G chunks \<noteq> Inl NonFinite"
proof (induction chunks)
  case Nil
  show ?case by simp
next
  case (Cons c chunks)
  obtain cnt m t s where c: "c = (cnt, m, t, s)" by (cases c) auto
  from Cons single_chunk_sim_not_NonFinite [of G 0 cnt m t "Some s"] show ?case
    unfolding c by (auto split: sum.splits)
qed

lemma sample_paths_not_NonFinite:
  "sample_paths G e samples mu thickness seed parallel n_workers \<noteq> Inl NonFinite"
  using single_chunk_sim_not_NonFinite [of G "os_entropy e" samples mu thickness seed]
    starmap_not_NonFinite [of G]
  by (auto simp add: sample_paths_def parallel_branch_def Let_def split: if_splits sum.splits)

text \<open>The stages of a call that returned.\<close>

lemma run_simulation_Inr:
  assumes "run_simulation G e ps parallel n_workers = Inr (r, fig)"
  shows "\<exists>mu tr paths nw xs.
           MATERIAL_MU (r_material r) = Some mu
         \<and> r_material r = (case p_material ps of None \<Rightarrow> ''Aluminum'' | Some m \<Rightarrow> m)
         \<and> r_thickness r = (case p_thickness ps of None \<Rightarrow> 1.0 | Some t \<Rightarrow> t)
         \<and> r_samples r = (case p_samples ps of None \<Rightarrow> 500 | Some n \<Rightarrow> n)
         \<and> sample_paths G e (r_samples r) mu (r_thickness r) (p_seed ps) parallel n_workers
              = Inr (tr, paths, nw)
         \<and> finite_paths paths = Some xs
         \<and> np_histogram xs (np_linspace 0 (hist_stop (r_thickness r) xs) 20)
              = Inr (r_counts r, r_bins r)
         \<and> r_transmitted r = tr"
  using assms
  by (auto simp add: run_simulation_def Let_def split: option.splits sum.splits prod.splits)

text \<open>A call returns a result when the material is known, the trial count is positive and,
  in parallel mode, the worker count is positive and the pool starts.\<close>

lemma run_simulation_returns:
  assumes G: "rng_ok G"
    and mat: "MATERIAL_MU (case p_material ps of None \<Rightarrow> ''Aluminum'' | Some m \<Rightarrow> m) = Some mu"
    and pos: "0 < (case p_samples ps of None \<Rightarrow> 500 | Some n \<Rightarrow> n)"
    and par: "parallel \<longrightarrow> pool_ok e \<and> (\<forall>k. n_workers = Some k \<longrightarrow> 1 \<le> k)"
  shows "\<exists>r fig. run_simulation G e ps parallel n_workers = Inr (r, fig)"
proof -
  define samples where "samples = (case p_samples ps of None \<Rightarrow> 500 | Some n \<Rightarrow> n)"
  define thickness where "thickness = (case p_thickness ps of None \<Rightarrow> 1.0 | Some t \<Rightarrow> t)"
  have mu: "0 < mu" by (rule MATERIAL_MU_pos [OF mat])
  have pos': "0 < samples" using pos by (simp add: samples_def)
  from sample_paths_returns [OF mu pos' par] obtain tr paths nw where
    sp: "sample_paths G e samples mu thickness (p_seed ps) parallel n_workers = Inr (tr, paths, nw)"
    by blast
  from sample_paths_Inr [OF G mu pos' sp] obtain xs where
    xs: "paths = map Fin xs" "int (length xs) = samples" "\<forall>x \<in> set xs. 0 \<le> x" by blast
  with pos' have ne: "xs \<noteq> []" by auto
  have "monotone_edges (np_linspace 0 (hist_stop thickness xs) 20)"
    by (rule monotone_np_linspace [OF hist_stop_nonneg [OF ne xs(3)]])
  then obtain cnts edges where
    hist: "np_histogram xs (np_linspace 0 (hist_stop thickness xs) 20) = Inr (cnts, edges)"
    by (simp add: np_histogram_def)
  from pos' have "py_truediv (real_of_int tr) (real_of_int samples)
                    = Inr (real_of_int tr / real_of_int samples)"
    by (simp add: py_truediv_def)
  with mat sp xs(1) hist show ?thesis
    by (simp add: run_simulation_def Let_def samples_def [symmetric] thickness_def [symmetric])
qed

lemma run_simulation_never_NonFinite:
  "run_simulation G e ps parallel n_workers \<noteq> Inl NonFinite"
proof
  assume a: "run_simulation G e ps parallel n_workers = Inl NonFinite"
  define material where "material = (case p_material ps of None \<Rightarrow> ''Aluminum'' | Some m \<Rightarrow> m)"
  define thickness where "thickness = (case p_thickness ps of None \<Rightarrow> 1.0 | Some t \<Rightarrow> t)"
  define samples where "samples = (case p_samples ps of None \<Rightarrow> 500 | Some n \<Rightarrow> n)"
  from a obtain mu where mu: "MATERIAL_MU material = Some mu"
    by (auto simp add: run_simulation_def Let_def material_def split: option.splits)
  show False
  proof (cases "sample_paths G e samples mu thickness (p_seed ps) parallel n_workers")
    case (Inl err)
    have "err \<noteq> NonFinite"
      using Inl sample_paths_not_NonFinite [of G e samples mu thickness "p_seed ps" parallel n_workers]
      by auto
    with a mu Inl show False
      by (simp add: run_simulation_def Let_def material_def [symmetric] thickness_def [symmetric] samples_def [symmetric])
  next
    case (Inr res)
    obtain tr paths nw where res: "res = (tr, paths, nw)" by (cases res) auto
    from sample_paths_Fin [OF MATERIAL_MU_pos [OF mu]] Inr res obtain xs where "paths = map Fin xs"
      by blast
    with a mu Inr res show False
      by (auto simp add: run_simulation_def Let_def material_def [symmetric] thickness_def [symmetric] samples_def [symmetric]
          py_truediv_def np_histogram_def split: if_splits)
  qed
qed

lemma rng_ok_G0: "rng_ok G0"
  by (simp add: rng_ok_def G0_def)

lemma rng_ok_G1: "rng_ok G1"
  by (simp add: rng_ok_def G1_def)

subsection \<open>Claims about the engine\<close>

lemma run_simulation_example:
  "run_simulation G0 env0 params0 True None = Inr (result0, Some Figure)"
  by (simp add: run_simulation_def MATERIAL_MU_def G0_def env0_def params0_def result0_def
        sample_paths_def parallel_branch_def chunks_from.simps offset_seed_def
        single_chunk_sim_def py_truediv_def rng_exponential_def count_exceeding_def
        hist_stop_def np_percentile_def np_histogram_def np_linspace_def upt_rec)

lemma run_simulation_no_pool:
  "run_simulation G0 (env0\<lparr>pool_ok := False\<rparr>) params0 True None = Inl OSError"
  by (simp add: run_simulation_def MATERIAL_MU_def env0_def params0_def
        sample_paths_def parallel_branch_def chunks_from.simps)

text \<open>
  C1 (two-run determinism of the sequential engine). Two invocations differ in what
  they read from outside: the entropy of the operating system, the processor count, the
  clock, the plot. With \<open>parallel = False\<close> and a seed in \<open>params\<close>, whatever the two
  environments \<open>e1\<close> and \<open>e2\<close> are, both invocations raise the same exception or both
  return, with the same \<open>transmitted\<close>, \<open>transmitted_fraction\<close>, \<open>bins\<close> and \<open>counts\<close>.
  \<open>run_simulation_returns\<close> shows that a valid input does return.
\<close>

theorem C1_sequential_determinism:
  "p_seed ps = Some s \<Longrightarrow>
     map_sum id reproducible_part (run_simulation G e1 ps False nw1)
       = map_sum id reproducible_part (run_simulation G e2 ps False nw2)"
  by (simp add: run_simulation_def Let_def reproducible_part_def
        sample_paths_seeded [of G e1 _ _ _ s nw1 e2 nw2]
        split: option.splits sum.splits prod.splits)

theorem C1_sequential_determinism_witness:
  "p_seed params42 = Some 42
   \<and> map_sum id reproducible_part (run_simulation G0 env0 params42 False None)
       = Inr (1, 1,
              [0, 42 / 19, 84 / 19, 126 / 19, 168 / 19, 210 / 19, 252 / 19, 294 / 19, 336 / 19,
               378 / 19, 420 / 19, 462 / 19, 504 / 19, 546 / 19, 588 / 19, 630 / 19, 672 / 19,
               714 / 19, 756 / 19, 42],
              [0, 0, 0, 0, 0, 0, 0, 0, 0, 0, 0, 0, 0, 0, 0, 0, 0, 0, 1])
   \<and> map_sum id reproducible_part (run_simulation G0 env1 params42 False (Some 2))
       = map_sum id reproducible_part (run_simulation G0 env0 params42 False None)"
proof -
  have seed: "p_seed params42 = Some 42" by (simp add: params42_def)
  have "map_sum id reproducible_part (run_simulation G0 env0 params42 False None)
       = Inr (1, 1,
              [0, 42 / 19, 84 / 19, 126 / 19, 168 / 19, 210 / 19, 252 / 19, 294 / 19, 336 / 19,
               378 / 19, 420 / 19, 462 / 19, 504 / 19, 546 / 19, 588 / 19, 630 / 19, 672 / 19,
               714 / 19, 756 / 19, 42],
              [0, 0, 0, 0, 0, 0, 0, 0, 0, 0, 0, 0, 0, 0, 0, 0, 0, 0, 1])"
    by (simp add: run_simulation_def MATERIAL_MU_def G0_def env0_def params42_def
          reproducible_part_def sample_paths_def single_chunk_sim_def py_truediv_def
          rng_exponential_def count_exceeding_def hist_stop_def np_percentile_def
          np_histogram_def np_linspace_def upt_rec)
  with seed C1_sequential_determinism [OF seed, of G0 env1 "Some 2" env0 None]
  show ?thesis by simp
qed



text \<open>
  C3 (derived seeds in parallel mode). The base seed is \<open>seed or entropy\<close>, and Python's
  \<open>or\<close> takes 0 for absent: with the caller's seed 0 and entropy 999 the four chunks of
  17 samples run with the seeds 999 to 1002, not 0 to 3. For every other seed the claim
  holds, by \<open>offset_seed_cases\<close> and \<open>seeds_of_chunks\<close>.
\<close>

theorem C3_seed_zero_replaced:
  "map (\<lambda>(cnt, mu, thickness, s). s)
       (chunks_from 0 4 (17 div 4) (17 mod 4) 0.08 1 (offset_seed (Some 0) 999))
     = [999, 1000, 1001, 1002]
   \<and> offset_seed (Some 0) 999 \<noteq> 0"
  by (simp add: chunks_from.simps offset_seed_def)

lemma run_simulation_ramp:
  "run_simulation G1 env0 params_ramp False None = Inr (result_ramp, Some Figure)"
  by (simp add: run_simulation_def MATERIAL_MU_def G1_def env0_def params_ramp_def
        result_ramp_def sample_paths_def single_chunk_sim_def py_truediv_def
        rng_exponential_def count_exceeding_def hist_stop_def np_percentile_def
        np_histogram_def np_linspace_def upt_rec)

text \<open>
  C6 (shape of the histogram). A call with a positive trial count that returns has
  sampled exactly \<open>samples\<close> finite path lengths \<open>xs\<close>. Its \<open>bins\<close> are 20 edges, the first
  0, the last \<open>max (2 * thickness) (95th percentile of xs)\<close>, each one nineteenth of the
  last above the one before. Its \<open>counts\<close> are 19 numbers, count \<open>i\<close> the number of samples
  in bin \<open>i\<close>; their sum is the number of samples from the first edge to the last, so a
  sample outside the outermost edges is counted nowhere, and the sum is at most
  \<open>samples\<close>. \<open>run_simulation_returns\<close> shows that a valid input does return.
\<close>

theorem C6_histogram_shape:
  assumes G: "rng_ok G"
    and run: "run_simulation G e ps parallel n_workers = Inr (r, fig)"
    and pos: "0 < r_samples r"
  shows "\<exists>mu tr paths nw xs.
           MATERIAL_MU (r_material r) = Some mu
         \<and> sample_paths G e (r_samples r) mu (r_thickness r) (p_seed ps) parallel n_workers
              = Inr (tr, paths, nw)
         \<and> paths = map Fin xs \<and> int (length xs) = r_samples r
         \<and> length (r_bins r) = 20
         \<and> r_bins r ! 0 = 0
         \<and> r_bins r ! 19 = max (2 * r_thickness r) (np_percentile xs 95)
         \<and> (\<forall>i < 19. r_bins r ! (i + 1) - r_bins r ! i = r_bins r ! 19 / 19)
         \<and> length (r_counts r) = 19
         \<and> (\<forall>i < 19. r_counts r ! i = int (length (filter (in_bin (r_bins r) i) xs)))
         \<and> sum_list (r_counts r)
             = int (length (filter (\<lambda>x. r_bins r ! 0 \<le> x \<and> x \<le> r_bins r ! 19) xs))
         \<and> sum_list (r_counts r) \<le> r_samples r"
proof -
  from run_simulation_Inr [OF run] obtain mu tr paths nw xs where
    mu: "MATERIAL_MU (r_material r) = Some mu"
    and sp: "sample_paths G e (r_samples r) mu (r_thickness r) (p_seed ps) parallel n_workers
               = Inr (tr, paths, nw)"
    and fp: "finite_paths paths = Some xs"
    and hist: "np_histogram xs (np_linspace 0 (hist_stop (r_thickness r) xs) 20)
                 = Inr (r_counts r, r_bins r)"
    by blast
  from sample_paths_Inr [OF G MATERIAL_MU_pos [OF mu] pos sp] obtain ys where
    ys: "paths = map Fin ys" "int (length ys) = r_samples r" by blast
  with fp have xs: "paths = map Fin xs" "int (length xs) = r_samples r" by simp_all
  with pos have ne: "xs \<noteq> []" by auto
  define stop where "stop = hist_stop (r_thickness r) xs"
  have stop: "stop = max (2 * r_thickness r) (np_percentile xs 95)"
    using ne by (simp add: stop_def hist_stop_def mult.commute)
  from np_histogram_Inr [OF hist]
  have bins: "r_bins r = np_linspace 0 stop 20"
    and len: "length (r_counts r) = 19"
    and sum: "sum_list (r_counts r) \<le> int (length xs)"
    by (simp_all add: stop_def np_linspace_def)
  have nth: "r_bins r ! i = real i * (stop / 19)" if "i < 20" for i
    using that by (simp add: bins nth_np_linspace)
  have b0: "r_bins r ! 0 = 0" by (simp add: nth)
  have b19: "r_bins r ! 19 = stop" by (simp add: nth)
  have step: "\<forall>i < 19. r_bins r ! (i + 1) - r_bins r ! i = r_bins r ! 19 / 19"
    by (simp add: nth b19 algebra_simps)
  have l20: "length (r_bins r) = 20" by (simp add: bins)
  have hist': "np_histogram xs (r_bins r) = Inr (r_counts r, r_bins r)"
    using hist by (simp add: bins stop_def)
  have each: "\<forall>i < 19. r_counts r ! i = int (length (filter (in_bin (r_bins r) i) xs))"
    using np_histogram_counts [OF hist'] l20 by simp
  from l20 have nonempty: "r_bins r \<noteq> []" by auto
  have ends: "hd (r_bins r) = r_bins r ! 0" "last (r_bins r) = r_bins r ! 19"
    using nonempty l20 by (simp_all add: hd_conv_nth last_conv_nth)
  have within: "sum_list (r_counts r)
             = int (length (filter (\<lambda>x. r_bins r ! 0 \<le> x \<and> x \<le> r_bins r ! 19) xs))"
    using np_histogram_sum [OF hist'] l20 by (simp add: ends)
  from mu sp xs l20 b0 b19 stop step len each within sum show ?thesis by auto
qed

theorem C6_histogram_shape_witness:
  "rng_ok G1
   \<and> run_simulation G1 env0 params_ramp False None = Inr (result_ramp, Some Figure)
   \<and> 0 < r_samples result_ramp
   \<and> r_samples result_ramp = 2
   \<and> r_bins result_ramp ! 19 = 95
   \<and> r_counts result_ramp ! 0 = 1
   \<and> sum_list (r_counts result_ramp) = 1"
proof -
  have pos: "0 < r_samples result_ramp" by (simp add: result_ramp_def)
  from C6_histogram_shape [OF rng_ok_G1 run_simulation_ramp pos] rng_ok_G1 run_simulation_ramp
  show ?thesis by (simp add: result_ramp_def)
qed

text \<open>
  C7 (unknown material). With a material outside Aluminum, Lead and Water the call
  raises \<open>ValueError\<close>, whatever the generator, the environment and the other arguments
  are: nothing is sampled before the check.
\<close>

theorem C7_unknown_material:
  "m \<notin> {''Aluminum'', ''Lead'', ''Water''} \<Longrightarrow>
     run_simulation G e (ps\<lparr>p_material := Some m\<rparr>) parallel n_workers
       = Inl (ValueError ''Unknown material'')"
  by (simp add: run_simulation_def MATERIAL_MU_def)

theorem C7_unknown_material_witness:
  "''Gold'' \<notin> {''Aluminum'', ''Lead'', ''Water''} \<and>
   run_simulation (\<lambda>seed scale n. []) \<lparr>os_entropy = 0, cpu_count = 4, pool_ok = True, t_start = 0, t_end = 1, plot_ok = True\<rparr>
     \<lparr>p_material = Some ''Gold'', p_thickness = Some 1, p_samples = Some 10, p_seed = None\<rparr> True None
       = Inl (ValueError ''Unknown material'')"
  using C7_unknown_material [of "''Gold''" "\<lambda>seed scale n. []" 
     "\<lparr>os_entropy = 0, cpu_count = 4, pool_ok = True, t_start = 0, t_end = 1, plot_ok = True\<rparr>"
     "\<lparr>p_material = Some ''Gold'', p_thickness = Some 1, p_samples = Some 10, p_seed = None\<rparr>" True None]
  by simp

text \<open>
  C8 (zero coefficient). With \<open>mu = 0\<close> and a positive trial count, \<open>single_chunk_sim\<close>
  returns \<open>samples\<close> path lengths, all infinite, and counts every trial as transmitted;
  and with no coefficient at all does it raise \<open>ZeroDivisionError\<close>.
\<close>

theorem C8_zero_coefficient:
  "0 < samples \<Longrightarrow>
     single_chunk_sim G entropy samples 0 thickness rng_seed
       = Inr (samples, replicate (nat samples) PInf)
     \<and> single_chunk_sim G entropy samples mu thickness rng_seed \<noteq> Inl ZeroDivisionError"
  by (auto simp add: single_chunk_sim_def np_full_def py_truediv_def rng_exponential_def
        count_exceeding_replicate_PInf split: sum.splits)

theorem C8_zero_coefficient_witness:
  "(0::int) < 3 \<and> single_chunk_sim (\<lambda>seed scale n. []) 5 3 0 2.5 None = Inr (3, [PInf, PInf, PInf])"
  using C8_zero_coefficient [of 3 "\<lambda>seed scale n. []" 5 "2.5" None] by (simp add: numeral_3_eq_3)


section \<open>Properties of the job store\<close>

subsection \<open>The invariant holds in every reachable state\<close>

lemma store_inv_init: "store_inv init"
  by (simp add: store_inv_def init_def status_of_def result_of_def)

lemma oldest_dom: "oldest dir ct f \<Longrightarrow> dir f \<noteq> None"
  by (simp add: oldest_def split: option.splits)

lemma store_invI:
  assumes "\<And>j. jobs_dir s j \<noteq> None \<Longrightarrow> j \<in> issued s \<and> processing_dir s j = None \<and> result_writes s j = 0"
    and "\<And>j. processing_dir s j \<noteq> None \<Longrightarrow> j \<in> issued s"
    and "\<And>j. 0 < result_writes s j \<Longrightarrow> j \<in> issued s"
    and "\<And>j. result_writes s j \<le> 1"
    and "\<And>j. results_dir s j \<noteq> None \<Longrightarrow> 0 < result_writes s j"
    and "\<And>j. 0 < result_writes s j \<Longrightarrow> results_dir s j \<noteq> None"
    and "\<And>j w. status_of s j = Some w \<Longrightarrow> w \<in> {''queued'', ''running'', ''done''}"
    and "\<And>j. status_of s j = Some ''done'' \<Longrightarrow> result_of s j \<noteq> None"
    and "pc_inv (pc s) s"
  shows "store_inv s"
  unfolding store_inv_def using assms by simp

lemma store_invD:
  assumes "store_inv s"
  shows "jobs_dir s j \<noteq> None \<Longrightarrow> j \<in> issued s \<and> processing_dir s j = None \<and> result_writes s j = 0"
    and "processing_dir s j \<noteq> None \<Longrightarrow> j \<in> issued s"
    and "0 < result_writes s j \<Longrightarrow> j \<in> issued s"
    and "result_writes s j \<le> 1"
    and "results_dir s j \<noteq> None \<Longrightarrow> 0 < result_writes s j"
    and "0 < result_writes s j \<Longrightarrow> results_dir s j \<noteq> None"
    and "status_of s j = Some w \<Longrightarrow> w \<in> {''queued'', ''running'', ''done''}"
    and "status_of s j = Some ''done'' \<Longrightarrow> result_of s j \<noteq> None"
    and "pc_inv (pc s) s"
  using assms unfolding store_inv_def by auto

lemma store_inv_fresh:
  assumes inv: "store_inv s" and fresh: "j \<notin> issued s"
  shows "jobs_dir s j = None" and "processing_dir s j = None" and "result_writes s j = 0"
proof -
  show "jobs_dir s j = None"
  proof (rule ccontr)
    assume "jobs_dir s j \<noteq> None"
    from store_invD(1) [OF inv this] fresh show False by simp
  qed
  show "processing_dir s j = None"
  proof (rule ccontr)
    assume "processing_dir s j \<noteq> None"
    from store_invD(2) [OF inv this] fresh show False by simp
  qed
  show "result_writes s j = 0"
  proof (rule ccontr)
    assume "result_writes s j \<noteq> 0"
    then have "0 < result_writes s j" by simp
    from store_invD(3) [OF inv this] fresh show False by simp
  qed
qed

lemma result_of_file: "result_of s j \<noteq> None \<Longrightarrow> results_dir s j \<noteq> None"
  by (auto simp add: result_of_def split: option.splits)

lemma result_of_cong: "results_dir s' = results_dir s \<Longrightarrow> result_of s' = result_of s"
  by (intro ext) (simp add: result_of_def)

lemma status_of_cong: "status_dir s' = status_dir s \<Longrightarrow> status_of s' = status_of s"
  by (intro ext) (simp add: status_of_def)

text \<open>The status word after a write to the status file of \<open>j0\<close>.\<close>

lemma status_of_write:
  assumes "status_dir s' = write_json outcome (status_dir s) j0 st"
  shows "status_of s' j =
           (if j = j0 \<and> outcome = Succeeds then Some (s_status st)
            else if j = j0 \<and> outcome = FailsAfterOpen then None
            else status_of s j)"
  using assms by (cases outcome) (simp_all add: status_of_def write_json_def)

text \<open>The invariant survives a step that leaves \<open>jobs\<close>, the results and the write counts
  alone, adds no file to \<open>processing\<close>, and writes \<open>done\<close> only for a job with a result.\<close>

lemma store_inv_frame:
  assumes inv: "store_inv s"
    and jobs: "jobs_dir s' = jobs_dir s"
    and proc: "\<And>j. processing_dir s' j \<noteq> None \<Longrightarrow> processing_dir s' j = processing_dir s j"
    and res: "results_dir s' = results_dir s"
    and rw: "result_writes s' = result_writes s"
    and iss: "issued s \<subseteq> issued s'"
    and st: "\<And>j w. status_of s' j = Some w \<Longrightarrow>
               status_of s j = Some w \<or> w = ''queued'' \<or> w = ''running''
               \<or> (w = ''done'' \<and> result_of s j \<noteq> None)"
    and pc: "pc_inv (pc s') s'"
  shows "store_inv s'"
proof (rule store_invI)
  note D = store_invD [OF inv]
  have ro: "result_of s' = result_of s" by (rule result_of_cong [OF res])
  show "j \<in> issued s' \<and> processing_dir s' j = None \<and> result_writes s' j = 0"
    if "jobs_dir s' j \<noteq> None" for j
  proof -
    from that jobs have a: "jobs_dir s j \<noteq> None" by simp
    from D(1) [OF a] iss rw have "j \<in> issued s'" "result_writes s' j = 0" "processing_dir s j = None"
      by auto
    moreover have "processing_dir s' j = None"
    proof (rule ccontr)
      assume "processing_dir s' j \<noteq> None"
      with proc [of j] \<open>processing_dir s j = None\<close> show False by simp
    qed
    ultimately show ?thesis by simp
  qed
  show "j \<in> issued s'" if "processing_dir s' j \<noteq> None" for j
    using proc [OF that] that D(2) [of j] iss by auto
  show "j \<in> issued s'" if "0 < result_writes s' j" for j
    using that D(3) [of j] iss rw by auto
  show "result_writes s' j \<le> 1" for j
    using D(4) [of j] rw by simp
  show "0 < result_writes s' j" if "results_dir s' j \<noteq> None" for j
    using that D(5) [of j] rw res by simp
  show "results_dir s' j \<noteq> None" if "0 < result_writes s' j" for j
    using that D(6) [of j] rw res by simp
  show "w \<in> {''queued'', ''running'', ''done''}" if "status_of s' j = Some w" for j w
    using st [OF that] D(7) [of j w] by auto
  show "result_of s' j \<noteq> None" if "status_of s' j = Some ''done''" for j
    using st [OF that] D(8) [of j] ro by auto
  show "pc_inv (pc s') s'" by (rule pc)
qed

text \<open>Where the worker stands stays fine when the fields it depends on stay.\<close>

lemma pc_inv_cong:
  assumes "pc_inv c s"
    and "jobs_dir s' = jobs_dir s" and "processing_dir s' = processing_dir s"
    and "results_dir s' = results_dir s" and "result_writes s' = result_writes s"
    and "issued s \<subseteq> issued s'"
  shows "pc_inv c s'"
  using assms by (cases c) (auto simp add: in_flight_def result_of_def)

lemma submit_effect:
  fixes p uuid now outcome s
  defines "s' \<equiv> snd (submit p uuid now outcome s)"
  shows "processing_dir s' = processing_dir s" and "status_dir s' = status_dir s"
    and "results_dir s' = results_dir s" and "result_writes s' = result_writes s"
    and "pc s' = pc s" and "issued s \<subseteq> issued s'" and "issued s' \<subseteq> insert uuid (issued s)"
    and "\<And>k. k \<noteq> uuid \<Longrightarrow> jobs_dir s' k = jobs_dir s k"
    and "\<And>k. k \<noteq> uuid \<Longrightarrow> pending s' k = pending s k"
    and "jobs_dir s' uuid \<noteq> jobs_dir s uuid \<Longrightarrow> uuid \<in> issued s'"
  unfolding s'_def
  by (auto simp add: submit_def Let_def write_json_def split: option.splits io.splits)

lemma store_inv_submit:
  assumes inv: "store_inv s" and fresh: "uuid \<notin> issued s"
  shows "store_inv (snd (submit p uuid now outcome s))"
proof (rule store_invI)
  let ?s' = "snd (submit p uuid now outcome s)"
  note E = submit_effect [where p = p and uuid = uuid and now = now and outcome = outcome and s = s]
  note D = store_invD [OF inv]
  note fr = store_inv_fresh [OF inv fresh]
  show "j \<in> issued ?s' \<and> processing_dir ?s' j = None \<and> result_writes ?s' j = 0"
    if a: "jobs_dir ?s' j \<noteq> None" for j
  proof (cases "j = uuid")
    case True
    with a fr(1) E(10) have "uuid \<in> issued ?s'" by auto
    with True fr E(1,4) show ?thesis by simp
  next
    case False
    with a E(8) [of j] have "jobs_dir s j \<noteq> None" by simp
    from D(1) [OF this] E(1,4,6) show ?thesis by auto
  qed
  show "j \<in> issued ?s'" if "processing_dir ?s' j \<noteq> None" for j
    using that D(2) [of j] E(1,6) by auto
  show "j \<in> issued ?s'" if "0 < result_writes ?s' j" for j
    using that D(3) [of j] E(4,6) by auto
  show "result_writes ?s' j \<le> 1" for j
    using D(4) [of j] E(4) by simp
  show "0 < result_writes ?s' j" if "results_dir ?s' j \<noteq> None" for j
    using that D(5) [of j] E(3,4) by simp
  show "results_dir ?s' j \<noteq> None" if "0 < result_writes ?s' j" for j
    using that D(6) [of j] E(3,4) by simp
  show "w \<in> {''queued'', ''running'', ''done''}" if "status_of ?s' j = Some w" for j w
    using that D(7) [of j w] status_of_cong [OF E(2)] by simp
  show "result_of ?s' j \<noteq> None" if "status_of ?s' j = Some ''done''" for j
    using that D(8) [of j] status_of_cong [OF E(2)] result_of_cong [OF E(3)] by simp
  show "pc_inv (pc ?s') ?s'"
  proof (cases "pc s")
    case Poll
    with E(5) show ?thesis by simp
  next
    case (Moved j)
    with D(9) have "in_flight s j" "result_writes s j = 0" by simp_all
    then have "j \<noteq> uuid" using fresh by (auto simp add: in_flight_def)
    with \<open>in_flight s j\<close> \<open>result_writes s j = 0\<close> Moved E(1,4,5,6) E(8) [of j] show ?thesis
      by (auto simp add: in_flight_def)
  next
    case (Started j)
    with D(9) have "in_flight s j" "result_writes s j = 0" by simp_all
    then have "j \<noteq> uuid" using fresh by (auto simp add: in_flight_def)
    with \<open>in_flight s j\<close> \<open>result_writes s j = 0\<close> Started E(1,4,5,6) E(8) [of j] show ?thesis
      by (auto simp add: in_flight_def)
  next
    case (Simulated j r)
    with D(9) have "in_flight s j" "result_writes s j = 0" by simp_all
    then have "j \<noteq> uuid" using fresh by (auto simp add: in_flight_def)
    with \<open>in_flight s j\<close> \<open>result_writes s j = 0\<close> Simulated E(1,4,5,6) E(8) [of j] show ?thesis
      by (auto simp add: in_flight_def)
  next
    case (Saved j)
    with D(9) have "in_flight s j" "result_of s j \<noteq> None" by simp_all
    then have "j \<noteq> uuid" using fresh by (auto simp add: in_flight_def)
    with \<open>in_flight s j\<close> \<open>result_of s j \<noteq> None\<close> Saved E(1,5,6) E(8) [of j]
      result_of_cong [OF E(3)] show ?thesis
      by (auto simp add: in_flight_def)
  next
    case (Finished j)
    with D(9) have "in_flight s j" "result_of s j \<noteq> None" by simp_all
    then have "j \<noteq> uuid" using fresh by (auto simp add: in_flight_def)
    with \<open>in_flight s j\<close> \<open>result_of s j \<noteq> None\<close> Finished E(1,5,6) E(8) [of j]
      result_of_cong [OF E(3)] show ?thesis
      by (auto simp add: in_flight_def)
  qed
qed

lemma submit_status_effect:
  fixes job_id created_at outcome s
  defines "s' \<equiv> snd (submit_status job_id created_at outcome s)"
  shows "jobs_dir s' = jobs_dir s" and "processing_dir s' = processing_dir s"
    and "results_dir s' = results_dir s" and "result_writes s' = result_writes s"
    and "pc s' = pc s" and "issued s' = issued s"
    and "pending s' = (pending s)(job_id := None)"
    and "status_dir s' = write_json outcome (status_dir s) job_id
           \<lparr> s_job_id = job_id, s_status = ''queued'', s_time_key = ''created_at'',
             s_time = created_at \<rparr>"
  unfolding s'_def by (simp_all add: submit_status_def Let_def)

lemma store_inv_submit_status:
  assumes inv: "store_inv s"
  shows "store_inv (snd (submit_status job_id created_at outcome s))"
proof (rule store_inv_frame [OF inv])
  let ?s' = "snd (submit_status job_id created_at outcome s)"
  note E = submit_status_effect [where job_id = job_id and created_at = created_at and outcome = outcome and s = s]
  show "jobs_dir ?s' = jobs_dir s" by (rule E(1))
  show "processing_dir ?s' j = processing_dir s j" for j by (simp add: E(2))
  show "results_dir ?s' = results_dir s" by (rule E(3))
  show "result_writes ?s' = result_writes s" by (rule E(4))
  show "issued s \<subseteq> issued ?s'" by (simp add: E(6))
  show "status_of s j = Some w \<or> w = ''queued'' \<or> w = ''running''
          \<or> (w = ''done'' \<and> result_of s j \<noteq> None)"
    if "status_of ?s' j = Some w" for j w
    using that by (auto simp add: status_of_write [OF E(8)] split: if_splits)
  show "pc_inv (pc ?s') ?s'"
    unfolding E(5) by (rule pc_inv_cong [OF store_invD(9) [OF inv]]) (simp_all add: E)
qed

lemma store_inv_move:
  assumes inv: "store_inv s" and job: "jobs_dir s f \<noteq> None"
  shows "store_inv (s\<lparr>jobs_dir := (jobs_dir s)(f := None),
                       processing_dir := (processing_dir s)(f := jobs_dir s f),
                       pc := Moved f\<rparr>)"
proof (rule store_invI)
  let ?s' = "s\<lparr>jobs_dir := (jobs_dir s)(f := None),
                processing_dir := (processing_dir s)(f := jobs_dir s f), pc := Moved f\<rparr>"
  note D = store_invD [OF inv]
  from D(1) [OF job] have f: "f \<in> issued s" "result_writes s f = 0" by simp_all
  show "j \<in> issued ?s' \<and> processing_dir ?s' j = None \<and> result_writes ?s' j = 0"
    if "jobs_dir ?s' j \<noteq> None" for j
  proof -
    from that have "j \<noteq> f" "jobs_dir s j \<noteq> None" by (auto split: if_splits)
    with D(1) [of j] show ?thesis by simp
  qed
  show "j \<in> issued ?s'" if "processing_dir ?s' j \<noteq> None" for j
  proof (cases "j = f")
    case True
    with f show ?thesis by simp
  next
    case False
    with that D(2) [of j] show ?thesis by simp
  qed
  show "j \<in> issued ?s'" if "0 < result_writes ?s' j" for j
    using that D(3) [of j] by simp
  show "result_writes ?s' j \<le> 1" for j
    using D(4) [of j] by simp
  show "0 < result_writes ?s' j" if "results_dir ?s' j \<noteq> None" for j
    using that D(5) [of j] by simp
  show "results_dir ?s' j \<noteq> None" if "0 < result_writes ?s' j" for j
    using that D(6) [of j] by simp
  show "w \<in> {''queued'', ''running'', ''done''}" if "status_of ?s' j = Some w" for j w
    using that D(7) [of j w] by (simp add: status_of_def)
  show "result_of ?s' j \<noteq> None" if "status_of ?s' j = Some ''done''" for j
    using that D(8) [of j] by (simp add: status_of_def result_of_def)
  show "pc_inv (pc ?s') ?s'"
    using f job by (simp add: in_flight_def)
qed

text \<open>The write of the result file, however it ends.\<close>

lemma store_inv_result:
  assumes inv: "store_inv s" and pc: "pc s = Simulated j0 r"
    and c: "c = (if outcome = Succeeds then Saved j0 else Poll)"
  shows "store_inv (s\<lparr>results_dir := write_json outcome (results_dir s) j0 m,
                       result_writes := (if outcome = FailsAtOpen then result_writes s
                                         else (result_writes s)(j0 := Suc (result_writes s j0))),
                       pc := c\<rparr>)"
proof (rule store_invI)
  let ?s' = "s\<lparr>results_dir := write_json outcome (results_dir s) j0 m,
                result_writes := (if outcome = FailsAtOpen then result_writes s
                                  else (result_writes s)(j0 := Suc (result_writes s j0))),
                pc := c\<rparr>"
  note D = store_invD [OF inv]
  from D(9) pc have fl: "in_flight s j0" and rw0: "result_writes s j0 = 0" by simp_all
  from fl have j0: "j0 \<in> issued s" "jobs_dir s j0 = None" "processing_dir s j0 \<noteq> None"
    by (simp_all add: in_flight_def)
  have none: "results_dir s j0 = None"
  proof (rule ccontr)
    assume "results_dir s j0 \<noteq> None"
    from D(5) [OF this] rw0 show False by simp
  qed
  show "j \<in> issued ?s' \<and> processing_dir ?s' j = None \<and> result_writes ?s' j = 0"
    if a: "jobs_dir ?s' j \<noteq> None" for j
  proof -
    from a have b: "jobs_dir s j \<noteq> None" by simp
    with j0(2) have "j \<noteq> j0" by auto
    with D(1) [OF b] show ?thesis by simp
  qed
  show "j \<in> issued ?s'" if "processing_dir ?s' j \<noteq> None" for j
    using that D(2) [of j] by simp
  show "j \<in> issued ?s'" if "0 < result_writes ?s' j" for j
    using that D(3) [of j] j0(1) by (cases "j = j0") (simp_all split: if_splits)
  show "result_writes ?s' j \<le> 1" for j
    using D(4) [of j] rw0 by simp
  show "0 < result_writes ?s' j" if "results_dir ?s' j \<noteq> None" for j
    using that D(5) [of j] none
    by (cases outcome; cases "j = j0") (simp_all add: write_json_def)
  show "results_dir ?s' j \<noteq> None" if "0 < result_writes ?s' j" for j
    using that D(6) [of j] rw0
    by (cases outcome; cases "j = j0") (simp_all add: write_json_def)
  show "w \<in> {''queued'', ''running'', ''done''}" if "status_of ?s' j = Some w" for j w
    using that D(7) [of j w] by (simp add: status_of_def)
  show "result_of ?s' j \<noteq> None" if a: "status_of ?s' j = Some ''done''" for j
  proof -
    from a have "status_of s j = Some ''done''" by (simp add: status_of_def)
    from D(8) [OF this] have r: "result_of s j \<noteq> None" .
    with none have "j \<noteq> j0" by (auto simp add: result_of_def)
    with r show ?thesis by (cases outcome) (simp_all add: result_of_def write_json_def)
  qed
  show "pc_inv (pc ?s') ?s'"
    using c fl by (cases outcome) (simp_all add: in_flight_def result_of_def write_json_def)
qed

lemma pc_inv_status:
  "pc_inv c (s\<lparr>status_dir := x, pc := c'\<rparr>) = pc_inv c s"
  by (cases c) (simp_all add: in_flight_def result_of_def)

lemma pc_inv_pc:
  "pc_inv c (s\<lparr>pc := c'\<rparr>) = pc_inv c s"
  by (cases c) (simp_all add: in_flight_def result_of_def)

lemma store_inv_worker_step:
  assumes inv: "store_inv s"
    and en: "pc s = Poll \<and> jobs_dir s \<noteq> Map.empty
               \<longrightarrow> oldest (jobs_dir s) (getctime s) (w_pick w)"
  shows "store_inv (worker_step G w s)"
proof (cases "pc s")
  case Poll
  show ?thesis
  proof (cases "jobs_dir s = Map.empty \<or> w_io w \<noteq> Succeeds")
    case True
    with Poll have "worker_step G w s = s \<or> worker_step G w s = s\<lparr>pc := Poll\<rparr>"
      by (auto simp add: worker_step_def worker_op_def)
    moreover have "s\<lparr>pc := Poll\<rparr> = s" using Poll by simp
    ultimately show ?thesis using inv by auto
  next
    case False
    with en Poll have job: "jobs_dir s (w_pick w) \<noteq> None" using oldest_dom by fastforce
    from False Poll have "worker_step G w s = s\<lparr>jobs_dir := (jobs_dir s)(w_pick w := None),
                       processing_dir := (processing_dir s)(w_pick w := jobs_dir s (w_pick w)),
                       pc := Moved (w_pick w)\<rparr>"
      by (simp add: worker_step_def worker_op_def)
    with store_inv_move [OF inv job] show ?thesis by simp
  qed
next
  case (Moved j)
  let ?st = "\<lparr> s_job_id = j, s_status = ''running'', s_time_key = ''start_time'',
               s_time = w_now w \<rparr>"
  let ?c = "if w_io w = Succeeds then Started j else Poll"
  have eq: "worker_step G w s = s\<lparr>status_dir := write_json (w_io w) (status_dir s) j ?st, pc := ?c\<rparr>"
    using Moved by (simp add: worker_step_def worker_op_def Let_def)
  from store_invD(9) [OF inv] Moved have p: "pc_inv (Started j) s" by simp
  show ?thesis unfolding eq
  proof (rule store_inv_frame [OF inv])
    let ?s' = "s\<lparr>status_dir := write_json (w_io w) (status_dir s) j ?st, pc := ?c\<rparr>"
    show "status_of s k = Some x \<or> x = ''queued'' \<or> x = ''running''
            \<or> (x = ''done'' \<and> result_of s k \<noteq> None)"
      if "status_of ?s' k = Some x" for k x
      using that status_of_write [of ?s' "w_io w" s j ?st k] by (auto split: if_splits)
    show "pc_inv (pc ?s') ?s'" using p by (simp add: pc_inv_status)
  qed simp_all
next
  case (Started j)
  from store_invD(9) [OF inv] Started have p: "pc_inv (Simulated j r) s" for r by simp
  have "worker_step G w s = s\<lparr>pc := Poll\<rparr> \<or> (\<exists>r. worker_step G w s = s\<lparr>pc := Simulated j r\<rparr>)"
    using Started
    by (auto simp add: worker_step_def worker_op_def split: sum.splits prod.splits)
  then obtain c where eq: "worker_step G w s = s\<lparr>pc := c\<rparr>" and c: "pc_inv c s"
    using p by auto
  show ?thesis unfolding eq
    by (rule store_inv_frame [OF inv]) (simp_all add: status_of_def pc_inv_pc c)
next
  case (Simulated j r)
  let ?m = "\<lparr> m_result = r, m_job_id = j, m_plot = ''/results/'' @ j @ ''.png'',
              m_completed_at = w_now w \<rparr>"
  have eq: "worker_step G w s =
      s\<lparr>results_dir := write_json (w_io w) (results_dir s) j ?m,
        result_writes := (if w_io w = FailsAtOpen then result_writes s
                          else (result_writes s)(j := Suc (result_writes s j))),
        pc := (if w_io w = Succeeds then Saved j else Poll)\<rparr>"
    using Simulated by (simp add: worker_step_def worker_op_def Let_def)
  show ?thesis unfolding eq by (rule store_inv_result [OF inv Simulated refl])
next
  case (Saved j)
  let ?st = "\<lparr> s_job_id = j, s_status = ''done'', s_time_key = ''completed_at'',
               s_time = w_now w \<rparr>"
  let ?c = "if w_io w = Succeeds then Finished j else Poll"
  have eq: "worker_step G w s = s\<lparr>status_dir := write_json (w_io w) (status_dir s) j ?st, pc := ?c\<rparr>"
    using Saved by (simp add: worker_step_def worker_op_def Let_def)
  from store_invD(9) [OF inv] Saved have p: "pc_inv (Finished j) s" and r: "result_of s j \<noteq> None"
    by simp_all
  show ?thesis unfolding eq
  proof (rule store_inv_frame [OF inv])
    let ?s' = "s\<lparr>status_dir := write_json (w_io w) (status_dir s) j ?st, pc := ?c\<rparr>"
    show "status_of s k = Some x \<or> x = ''queued'' \<or> x = ''running''
            \<or> (x = ''done'' \<and> result_of s k \<noteq> None)"
      if "status_of ?s' k = Some x" for k x
      using that r status_of_write [of ?s' "w_io w" s j ?st k] by (auto split: if_splits)
    show "pc_inv (pc ?s') ?s'" using p by (simp add: pc_inv_status)
  qed simp_all
next
  case (Finished j)
  have "worker_step G w s = s\<lparr>pc := Poll\<rparr>
        \<or> worker_step G w s = s\<lparr>processing_dir := (processing_dir s)(j := None), pc := Poll\<rparr>"
    using Finished by (auto simp add: worker_step_def worker_op_def)
  then show ?thesis
  proof
    assume eq: "worker_step G w s = s\<lparr>pc := Poll\<rparr>"
    show ?thesis unfolding eq
      by (rule store_inv_frame [OF inv]) (simp_all add: status_of_def)
  next
    assume eq: "worker_step G w s = s\<lparr>processing_dir := (processing_dir s)(j := None), pc := Poll\<rparr>"
    show ?thesis unfolding eq
      by (rule store_inv_frame [OF inv]) (simp_all add: status_of_def split: if_splits)
  qed
qed

lemma store_inv_step:
  assumes "store_inv s" and "step G s e = Some s'"
  shows "store_inv s'"
proof (cases e)
  case (SubmitRequest p uuid now outcome)
  with assms store_inv_submit [of s uuid p now outcome] show ?thesis
    by (auto split: if_splits)
next
  case (SubmitStatus job_id outcome)
  with assms store_inv_submit_status [of s job_id _ outcome] show ?thesis
    by (auto split: option.splits)
next
  case (WorkerStep w)
  with assms(2) have en: "pc s = Poll \<and> jobs_dir s \<noteq> Map.empty
                            \<longrightarrow> oldest (jobs_dir s) (getctime s) (w_pick w)"
    and s': "s' = worker_step G w s"
    by (auto split: if_splits)
  from store_inv_worker_step [OF assms(1) en] s' show ?thesis by simp
qed

lemma store_inv_run:
  assumes "store_inv s" and "run G s es = Some s'"
  shows "store_inv s'"
  using assms
proof (induction es arbitrary: s)
  case Nil
  then show ?case by simp
next
  case (Cons e es)
  from Cons.prems(2) obtain t where t: "step G s e = Some t" and rest: "run G t es = Some s'"
    by (auto split: option.splits)
  from Cons.IH [OF store_inv_step [OF Cons.prems(1) t] rest] show ?case .
qed

lemma reachable_inv: "run G init es = Some s \<Longrightarrow> store_inv s"
  by (rule store_inv_run [OF store_inv_init])

subsection \<open>The sample run\<close>

lemma run_append:
  "run G s (es @ es') = (case run G s es of None \<Rightarrow> None | Some t \<Rightarrow> run G t es')"
  by (induction es arbitrary: s) (simp_all split: option.splits)

lemmas sample_defs =
  init_def payload0_def ok0_def fail0_def cut0_def nopool0_def job0_def status0_def
  st_pending_def st_queued_def st_moved_def st_started_def st_simulated_def st_saved_def
  st_done_def st_cut_def
  submit_def submit_status_def worker_step_def worker_op_def write_json_def read_json_def
  ALLOWED_MATERIALS_def ALLOWED_THICKNESSES_def MAX_SAMPLES_def

lemma oldest_single: "oldest [f \<mapsto> d] ct f"
  by (simp add: oldest_def)

lemma step_pending: "step G0 init (SubmitRequest payload0 ''a1'' 1 Succeeds) = Some st_pending"
  by (simp add: sample_defs)

lemma step_queued: "step G0 st_pending (SubmitStatus ''a1'' Succeeds) = Some st_queued"
  by (simp add: sample_defs)

lemma step_moved: "step G0 st_queued (WorkerStep ok0) = Some st_moved"
  by (simp add: sample_defs oldest_single)

lemma step_started: "step G0 st_moved (WorkerStep ok0) = Some st_started"
  by (simp add: sample_defs)

lemma params_job0:
  "\<lparr> p_material = Some (j_material job0), p_thickness = Some (j_thickness job0),
     p_samples = Some (j_samples job0), p_seed = None \<rparr> = params0"
  by (simp add: job0_def params0_def)

lemma parallel_job0: "j_parallel job0"
  by (simp add: job0_def)

lemma op_simulated: "worker_op G0 ok0 st_started = (None, st_simulated)"
  using run_simulation_example
  by (simp add: worker_op_def read_json_def st_started_def st_moved_def st_queued_def
        st_pending_def init_def st_simulated_def ok0_def params_job0 parallel_job0)

lemma step_simulated: "step G0 st_started (WorkerStep ok0) = Some st_simulated"
  by (simp add: worker_step_def op_simulated) (simp add: st_started_def)

lemma step_saved: "step G0 st_simulated (WorkerStep ok0) = Some st_saved"
  by (simp add: sample_defs)

lemma step_done: "step G0 st_saved (WorkerStep ok0) = Some st_done"
  by (simp add: sample_defs)

lemma run_moved: "run G0 init trace_moved = Some st_moved"
  by (simp add: trace_moved_def step_pending step_queued step_moved del: step.simps)

lemma run_started: "run G0 init trace_started = Some st_started"
  by (simp add: trace_started_def run_append run_moved step_started del: step.simps)

lemma run_saved: "run G0 init trace_saved = Some st_saved"
  by (simp add: trace_saved_def run_append run_started step_simulated step_saved del: step.simps)

lemma run_done: "run G0 init trace_done = Some st_done"
  by (simp add: trace_done_def run_append run_saved step_done del: step.simps)

text \<open>The operations that raise in the sample run.\<close>

lemma op_no_pool: "worker_op G0 nopool0 st_started = (Some OSError, st_started)"
  using run_simulation_no_pool
  by (simp add: worker_op_def read_json_def st_started_def st_moved_def st_queued_def
        st_pending_def init_def nopool0_def params_job0 parallel_job0)

lemma op_running_fails: "worker_op G0 fail0 st_moved = (Some OSError, st_moved)"
  by (simp add: sample_defs)

lemma step_running_fails: "step G0 st_moved (WorkerStep fail0) = Some (st_moved\<lparr>pc := Poll\<rparr>)"
  by (simp add: worker_step_def op_running_fails) (simp add: st_moved_def)

lemma op_done_fails: "worker_op G0 fail0 st_saved = (Some OSError, st_saved)"
  by (simp add: sample_defs)

lemma step_done_fails: "step G0 st_saved (WorkerStep fail0) = Some (st_saved\<lparr>pc := Poll\<rparr>)"
  by (simp add: worker_step_def op_done_fails) (simp add: st_saved_def)

lemma op_done_cut:
  "worker_op G0 cut0 st_saved
     = (Some OSError, st_saved\<lparr>status_dir := [''a1'' \<mapsto> Unreadable]\<rparr>)"
  by (simp add: sample_defs)

lemma step_done_cut: "step G0 st_saved (WorkerStep cut0) = Some st_cut"
  by (simp add: worker_step_def op_done_cut) (simp add: st_saved_def st_cut_def)

lemma run_after_no_pool:
  "run G0 st_started [WorkerStep nopool0, SubmitRequest payload0 ''b2'' 5 Succeeds] \<noteq> None"
  by (simp add: worker_step_def op_no_pool)
     (simp add: sample_defs)

subsection \<open>A job the worker has left behind stays as it is\<close>

lemma pc_inv_in_flight: "pc_inv c s \<Longrightarrow> pc_job c = Some j \<Longrightarrow> in_flight s j"
  by (cases c) simp_all

lemma stuck_submit:
  assumes st: "stuck j s" and fresh: "uuid \<notin> issued s"
  shows "stuck j (snd (submit p uuid now outcome s))"
proof -
  note E = submit_effect [where p = p and uuid = uuid and now = now and outcome = outcome and s = s]
  from st fresh have ne: "j \<noteq> uuid" by (auto simp add: stuck_def)
  from st E(1,5,6) E(8) [OF ne] E(9) [OF ne] status_of_cong [OF E(2)] show ?thesis
    by (auto simp add: stuck_def)
qed

lemma stuck_submit_status:
  assumes st: "stuck j s" and pend: "pending s k = Some c"
  shows "stuck j (snd (submit_status k c outcome s))"
proof -
  note E = submit_status_effect [where job_id = k and created_at = c and outcome = outcome and s = s]
  from st pend have ne: "j \<noteq> k" by (auto simp add: stuck_def)
  from st E(1,2,5,6,7) ne status_of_write [OF E(8), of j] show ?thesis
    by (simp add: stuck_def)
qed

lemma stuck_worker_step:
  assumes st: "stuck j s"
    and en: "pc s = Poll \<and> jobs_dir s \<noteq> Map.empty
               \<longrightarrow> oldest (jobs_dir s) (getctime s) (w_pick w)"
  shows "stuck j (worker_step G w s)"
proof (cases "pc s")
  case Poll
  show ?thesis
  proof (cases "jobs_dir s = Map.empty \<or> w_io w \<noteq> Succeeds")
    case True
    with Poll have "worker_step G w s = s \<or> worker_step G w s = s\<lparr>pc := Poll\<rparr>"
      by (auto simp add: worker_step_def worker_op_def)
    moreover have "s\<lparr>pc := Poll\<rparr> = s" using Poll by simp
    ultimately show ?thesis using st by auto
  next
    case False
    with en Poll have "jobs_dir s (w_pick w) \<noteq> None" using oldest_dom by fastforce
    with st have ne: "w_pick w \<noteq> j" by (auto simp add: stuck_def)
    from False Poll have "worker_step G w s = s\<lparr>jobs_dir := (jobs_dir s)(w_pick w := None),
                       processing_dir := (processing_dir s)(w_pick w := jobs_dir s (w_pick w)),
                       pc := Moved (w_pick w)\<rparr>"
      by (simp add: worker_step_def worker_op_def)
    with st ne show ?thesis by (simp add: stuck_def status_of_def)
  qed
next
  case (Moved k)
  with st have ne: "k \<noteq> j" by (auto simp add: stuck_def)
  have "worker_step G w s = s\<lparr>status_dir := write_json (w_io w) (status_dir s) k
            \<lparr> s_job_id = k, s_status = ''running'', s_time_key = ''start_time'',
              s_time = w_now w \<rparr>,
          pc := (if w_io w = Succeeds then Started k else Poll)\<rparr>"
    using Moved by (simp add: worker_step_def worker_op_def Let_def)
  with st ne show ?thesis
    by (cases "w_io w") (simp_all add: stuck_def status_of_def write_json_def)
next
  case (Started k)
  with st have ne: "k \<noteq> j" by (auto simp add: stuck_def)
  have "worker_step G w s = s\<lparr>pc := Poll\<rparr> \<or> (\<exists>r. worker_step G w s = s\<lparr>pc := Simulated k r\<rparr>)"
    using Started
    by (auto simp add: worker_step_def worker_op_def split: sum.splits prod.splits)
  with st ne show ?thesis by (auto simp add: stuck_def status_of_def)
next
  case (Simulated k r)
  with st have ne: "k \<noteq> j" by (auto simp add: stuck_def)
  have "worker_step G w s =
      s\<lparr>results_dir := write_json (w_io w) (results_dir s) k
           \<lparr> m_result = r, m_job_id = k, m_plot = ''/results/'' @ k @ ''.png'',
             m_completed_at = w_now w \<rparr>,
        result_writes := (if w_io w = FailsAtOpen then result_writes s
                          else (result_writes s)(k := Suc (result_writes s k))),
        pc := (if w_io w = Succeeds then Saved k else Poll)\<rparr>"
    using Simulated by (simp add: worker_step_def worker_op_def Let_def)
  with st ne show ?thesis by (simp add: stuck_def status_of_def)
next
  case (Saved k)
  with st have ne: "k \<noteq> j" by (auto simp add: stuck_def)
  have "worker_step G w s = s\<lparr>status_dir := write_json (w_io w) (status_dir s) k
            \<lparr> s_job_id = k, s_status = ''done'', s_time_key = ''completed_at'',
              s_time = w_now w \<rparr>,
          pc := (if w_io w = Succeeds then Finished k else Poll)\<rparr>"
    using Saved by (simp add: worker_step_def worker_op_def Let_def)
  with st ne show ?thesis
    by (cases "w_io w") (simp_all add: stuck_def status_of_def write_json_def)
next
  case (Finished k)
  with st have ne: "k \<noteq> j" by (auto simp add: stuck_def)
  have "worker_step G w s = s\<lparr>pc := Poll\<rparr>
        \<or> worker_step G w s = s\<lparr>processing_dir := (processing_dir s)(k := None), pc := Poll\<rparr>"
    using Finished by (auto simp add: worker_step_def worker_op_def)
  with st ne show ?thesis by (auto simp add: stuck_def status_of_def)
qed

lemma stuck_step:
  assumes "stuck j s" and "step G s e = Some s'"
  shows "stuck j s'"
proof (cases e)
  case (SubmitRequest p uuid now outcome)
  with assms stuck_submit [of j s uuid p now outcome] show ?thesis
    by (auto split: if_splits)
next
  case (SubmitStatus k outcome)
  with assms stuck_submit_status [of j s k _ outcome] show ?thesis
    by (auto split: option.splits)
next
  case (WorkerStep w)
  with assms(2) have en: "pc s = Poll \<and> jobs_dir s \<noteq> Map.empty
                            \<longrightarrow> oldest (jobs_dir s) (getctime s) (w_pick w)"
    and s': "s' = worker_step G w s"
    by (auto split: if_splits)
  from stuck_worker_step [OF assms(1) en] s' show ?thesis by simp
qed

lemma stuck_run:
  assumes "stuck j s" and "run G s es = Some s'"
  shows "stuck j s'"
  using assms
proof (induction es arbitrary: s)
  case Nil
  then show ?case by simp
next
  case (Cons e es)
  from Cons.prems(2) obtain t where t: "step G s e = Some t" and rest: "run G t es = Some s'"
    by (auto split: option.splits)
  from Cons.IH [OF stuck_step [OF Cons.prems(1) t] rest] show ?case .
qed

text \<open>What an operation that raises leaves behind, in the window in which the status of
  the job is not written: the status file and the claim as they were.\<close>

lemma raise_keeps_status:
  assumes window: "pc s = Started j \<or> (\<exists>r. pc s = Simulated j r)
                     \<or> (pc s = Saved j \<and> w_io w = FailsAtOpen)"
    and raises: "fst (worker_op G w s) = Some err"
  shows "pc (worker_step G w s) = Poll"
    and "status_dir (worker_step G w s) = status_dir s"
    and "processing_dir (worker_step G w s) = processing_dir s"
    and "jobs_dir (worker_step G w s) = jobs_dir s"
    and "issued (worker_step G w s) = issued s"
    and "pending (worker_step G w s) = pending s"
  using assms
  by (auto simp add: worker_step_def worker_op_def Let_def write_json_def
        split: sum.splits prod.splits if_splits)

subsection \<open>Claims about the job store\<close>

text \<open>The claim operation moves the descriptor: afterwards it is in \<open>processing\<close> and no
  longer in \<open>jobs\<close>.\<close>

lemma claim_moves:
  assumes "pc s = Poll" and "jobs_dir s (w_pick w) = Some d" and "w_io w = Succeeds"
  shows "jobs_dir (worker_step G w s) (w_pick w) = None
       \<and> processing_dir (worker_step G w s) (w_pick w) = Some d"
proof -
  from assms(2) have "jobs_dir s \<noteq> Map.empty" by auto
  with assms show ?thesis by (simp add: worker_step_def worker_op_def)
qed

text \<open>
  C4 (queued or claimed, never both). In every state the system reaches by submissions
  and worker operations, no job id has a descriptor in \<open>jobs\<close> and a claim marker in
  \<open>processing\<close> at once. The worker claims by \<open>os.rename\<close> (\<open>claim_moves\<close>), it releases by
  \<open>os.remove\<close>, and a submission enqueues under an id that \<open>new_job_id\<close> has not returned
  before.
\<close>

theorem C4_queued_or_claimed:
  "run G init es = Some s \<Longrightarrow>
     \<not> (jobs_dir s job_id \<noteq> None \<and> processing_dir s job_id \<noteq> None)"
proof -
  assume "run G init es = Some s"
  then have "store_inv s" by (rule reachable_inv)
  show ?thesis
  proof
    assume both: "jobs_dir s job_id \<noteq> None \<and> processing_dir s job_id \<noteq> None"
    then have "processing_dir s job_id = None"
      using store_invD(1) [OF \<open>store_inv s\<close>, of job_id] by blast
    with both show False by simp
  qed
qed

theorem C4_queued_or_claimed_witness:
  "run G0 init trace_moved = Some st_moved
   \<and> processing_dir st_moved ''a1'' \<noteq> None
   \<and> \<not> (jobs_dir st_moved ''a1'' \<noteq> None \<and> processing_dir st_moved ''a1'' \<noteq> None)"
  using C4_queued_or_claimed [OF run_moved, of "''a1''"] run_moved
  by (simp add: st_moved_def)

text \<open>
  C5, as stated, fails. The worker writes the result file before it writes \<open>done\<close>; in
  the sample run the second write raises at \<open>open\<close>, the loop goes back to polling, and
  job \<open>a1\<close> has a result while its status is \<open>running\<close>, for good.
\<close>

theorem C5_result_without_done:
  "run G0 init (trace_saved @ [WorkerStep fail0]) = Some (st_saved\<lparr>pc := Poll\<rparr>)
   \<and> results_dir (st_saved\<lparr>pc := Poll\<rparr>) ''a1'' \<noteq> None
   \<and> status_of (st_saved\<lparr>pc := Poll\<rparr>) ''a1'' = Some ''running''"
  by (simp add: run_append run_saved step_done_fails del: step.simps)
     (simp add: st_saved_def st_simulated_def st_started_def status_of_def status0_def)

text \<open>
  C5, amended. In every reachable state the result file of a job has been opened for
  writing at most once, it exists exactly when it has been, and a job whose status is
  \<open>done\<close> has a result file, one that holds the result. (A result may exist while the
  status is not yet, or never, \<open>done\<close>.)
\<close>

theorem C5_done_has_result:
  "run G init es = Some s \<Longrightarrow>
     result_writes s job_id \<le> 1
   \<and> (results_dir s job_id \<noteq> None \<longleftrightarrow> result_writes s job_id = 1)
   \<and> (status_of s job_id = Some ''done'' \<longrightarrow> results_dir s job_id \<noteq> None)
   \<and> (status_of s job_id = Some ''done'' \<longrightarrow> result_of s job_id \<noteq> None)"
proof -
  assume "run G init es = Some s"
  then have inv: "store_inv s" by (rule reachable_inv)
  note D = store_invD [OF inv]
  have a: "result_writes s job_id \<le> 1" by (rule D(4))
  have b: "results_dir s job_id \<noteq> None \<longleftrightarrow> result_writes s job_id = 1"
  proof
    assume "results_dir s job_id \<noteq> None"
    from D(5) [OF this] a show "result_writes s job_id = 1" by simp
  next
    assume "result_writes s job_id = 1"
    then have "0 < result_writes s job_id" by simp
    from D(6) [OF this] show "results_dir s job_id \<noteq> None" .
  qed
  have c: "result_of s job_id \<noteq> None" if "status_of s job_id = Some ''done''"
    by (rule D(8) [OF that])
  from a b c result_of_file [of s job_id] show ?thesis by blast
qed

theorem C5_done_has_result_witness:
  "run G0 init trace_done = Some st_done
   \<and> status_of st_done ''a1'' = Some ''done''
   \<and> result_writes st_done ''a1'' = 1 \<and> results_dir st_done ''a1'' \<noteq> None
   \<and> result_of st_done ''a1'' \<noteq> None"
  using C5_done_has_result [OF run_done, of "''a1''"] run_done
  by (simp add: st_done_def st_saved_def status_of_def result_of_def status0_def)

text \<open>
  C9, as stated, fails, in two ways. In the sample run the worker has moved the
  descriptor of job \<open>a1\<close> and the write of the \<open>running\<close> status raises at \<open>open\<close>: the
  exception is caught and the claim stays, but the status of the job is \<open>queued\<close>, not
  \<open>running\<close>. And when the status of \<open>a1\<close> is \<open>running\<close>, its result is saved and the
  write of the \<open>done\<close> status raises after \<open>open\<close>, the exception is caught and the claim
  stays, but the status file is left without its text: the job has no status to read.
\<close>

theorem C9_status_not_running:
  "run G0 init trace_moved = Some st_moved
   \<and> fst (worker_op G0 fail0 st_moved) = Some OSError
   \<and> run G0 init (trace_moved @ [WorkerStep fail0]) = Some (st_moved\<lparr>pc := Poll\<rparr>)
   \<and> processing_dir (st_moved\<lparr>pc := Poll\<rparr>) ''a1'' \<noteq> None
   \<and> status_of (st_moved\<lparr>pc := Poll\<rparr>) ''a1'' = Some ''queued''
   \<and> run G0 init trace_saved = Some st_saved
   \<and> status_of st_saved ''a1'' = Some ''running''
   \<and> fst (worker_op G0 cut0 st_saved) = Some OSError
   \<and> run G0 init (trace_saved @ [WorkerStep cut0]) = Some st_cut
   \<and> processing_dir st_cut ''a1'' \<noteq> None
   \<and> status_of st_cut ''a1'' = None"
  by (simp add: run_append run_moved run_saved step_running_fails step_done_cut
        op_running_fails op_done_cut del: step.simps)
     (simp add: st_cut_def st_saved_def st_simulated_def st_started_def st_moved_def
        st_queued_def status_of_def status0_def)

text \<open>
  C9, amended. Let the worker be processing job \<open>j\<close> in a reachable state, let the
  status of \<open>j\<close> be \<open>running\<close> and the submit request of \<open>j\<close> be over, and let the next
  operation of the worker raise without having opened the status file: reading the
  descriptor, the simulation, writing the result, or the \<open>open\<close> of the write of \<open>done\<close>.
  Then the loop catches the exception and goes back to polling, and in every state
  after that the claim marker of \<open>j\<close> is still in \<open>processing\<close>, the status of \<open>j\<close> is
  still \<open>running\<close>, and no job has the status \<open>failed\<close>.
\<close>

theorem C9_stays_running:
  assumes reach: "run G init es = Some s"
    and window: "pc s = Started j \<or> (\<exists>r. pc s = Simulated j r)
                   \<or> (pc s = Saved j \<and> w_io w = FailsAtOpen)"
    and raises: "fst (worker_op G w s) = Some err"
    and running: "status_of s j = Some ''running''"
    and returned: "pending s j = None"
    and later: "run G s (WorkerStep w # es') = Some s'"
  shows "map_option pc (step G s (WorkerStep w)) = Some Poll
       \<and> processing_dir s' j \<noteq> None
       \<and> status_of s' j = Some ''running''
       \<and> (\<forall>k. status_of s' k \<noteq> Some ''failed'')"
proof -
  have inv: "store_inv s" by (rule reachable_inv [OF reach])
  let ?t = "worker_step G w s"
  note K = raise_keeps_status [OF window raises]
  from window have job: "pc_job (pc s) = Some j" and np: "pc s \<noteq> Poll" by auto
  from np have st: "step G s (WorkerStep w) = Some ?t" by simp
  with later have rest: "run G ?t es' = Some s'" by simp
  from pc_inv_in_flight [OF store_invD(9) [OF inv] job]
  have "in_flight s j" .
  with running returned K status_of_cong [OF K(2)] have "stuck j ?t"
    by (simp add: stuck_def in_flight_def)
  from stuck_run [OF this rest] have s': "stuck j s'" .
  have "run G init (es @ WorkerStep w # es') = Some s'"
    using reach later by (simp add: run_append del: run.simps)
  then have "store_inv s'" by (rule reachable_inv)
  from store_invD(7) [OF this] have "status_of s' k \<noteq> Some ''failed''" for k
    by fastforce
  with st K(1) s' show ?thesis by (simp add: stuck_def)
qed

theorem C9_stays_running_witness:
  "run G0 init trace_started = Some st_started
   \<and> pc st_started = Started ''a1''
   \<and> fst (worker_op G0 nopool0 st_started) = Some OSError
   \<and> status_of st_started ''a1'' = Some ''running''
   \<and> pending st_started ''a1'' = None
   \<and> (\<exists>s'. run G0 st_started [WorkerStep nopool0, SubmitRequest payload0 ''b2'' 5 Succeeds] = Some s'
          \<and> processing_dir s' ''a1'' \<noteq> None
          \<and> status_of s' ''a1'' = Some ''running'')"
proof -
  have pc: "pc st_started = Started ''a1''" by (simp add: st_started_def)
  then have window: "pc st_started = Started ''a1'' \<or> (\<exists>r. pc st_started = Simulated ''a1'' r)
                   \<or> (pc st_started = Saved ''a1'' \<and> w_io nopool0 = FailsAtOpen)" by simp
  have raises: "fst (worker_op G0 nopool0 st_started) = Some OSError" by (simp add: op_no_pool)
  have running: "status_of st_started ''a1'' = Some ''running''"
    by (simp add: st_started_def status_of_def status0_def)
  have returned: "pending st_started ''a1'' = None"
    by (simp add: st_started_def st_moved_def st_queued_def)
  from run_after_no_pool obtain s' where
    later: "run G0 st_started [WorkerStep nopool0, SubmitRequest payload0 ''b2'' 5 Succeeds] = Some s'"
    by blast
  from C9_stays_running [OF run_started window raises running returned later]
  show ?thesis using run_started pc raises running returned later by blast
qed

text \<open>
  C10 (unknown material at submission). A submission whose material is missing or
  not one of Aluminum, Lead, Water is answered with the error \<open>invalid material\<close>, and
  the state is the one before: no id is issued, no descriptor and no status file is
  written.
\<close>

theorem C10_invalid_material_rejected:
  "(case q_material p of None \<Rightarrow> True | Some m \<Rightarrow> m \<notin> {''Aluminum'', ''Lead'', ''Water''}) \<Longrightarrow>
     submit p uuid now outcome s = (Some (Rejected ''invalid material''), s)
   \<and> (uuid \<notin> issued s \<longrightarrow> step G s (SubmitRequest p uuid now outcome) = Some s)"
  by (simp add: submit_def ALLOWED_MATERIALS_def split: option.splits)

theorem C10_invalid_material_rejected_witness:
  "(case q_material (payload0\<lparr>q_material := Some ''Gold''\<rparr>) of
      None \<Rightarrow> True | Some m \<Rightarrow> m \<notin> {''Aluminum'', ''Lead'', ''Water''})
   \<and> submit (payload0\<lparr>q_material := Some ''Gold''\<rparr>) ''c3'' 7 Succeeds st_queued
       = (Some (Rejected ''invalid material''), st_queued)
   \<and> ''c3'' \<notin> issued st_queued
   \<and> step G0 st_queued (SubmitRequest (payload0\<lparr>q_material := Some ''Gold''\<rparr>) ''c3'' 7 Succeeds)
       = Some st_queued"
  using C10_invalid_material_rejected [of "payload0\<lparr>q_material := Some ''Gold''\<rparr>" "''c3''" 7 Succeeds st_queued G0]
  by (simp add: payload0_def st_queued_def st_pending_def init_def)

end
